theory Spec2Isabelle
  imports Main "HOL-Library.AList"
begin

section \<open>JavaScript values\<close>

text \<open>
  The two elements of \<^verbatim>\<open>arc-local-store-preferences\<close> keep JSON-like values in the
  browser's \<^verbatim>\<open>localStorage\<close>. A JavaScript value is modelled by the datatype below.
  Numbers are the integral numbers (floating point is outside the model) and strings are
  HOL strings, so a character is a code unit in the range 0..255. An object is the list
  of its own enumerable properties in property order; a well-formed object has no key
  twice.
\<close>

datatype jsval =
    JUndefined
  | JNull
  | JBool bool
  | JNum int
  | JStr string
  | JArr "jsval list"
  | JObj "(string \<times> jsval) list"

datatype js_error = TypeError | SyntaxError | QuotaExceededError | Error string

datatype 'a promise = Resolved 'a | Rejected js_error

text \<open>ToBoolean: what \<^verbatim>\<open>!value\<close>, \<^verbatim>\<open>a || b\<close> and \<^verbatim>\<open>if (x)\<close> test.\<close>

fun truthy :: "jsval \<Rightarrow> bool" where
  "truthy JUndefined = False"
| "truthy JNull = False"
| "truthy (JBool b) = b"
| "truthy (JNum n) = (n \<noteq> 0)"
| "truthy (JStr s) = (s \<noteq> [])"
| "truthy (JArr xs) = True"
| "truthy (JObj kvs) = True"

fun typeof :: "jsval \<Rightarrow> string" where
  "typeof JUndefined = ''undefined''"
| "typeof JNull = ''object''"
| "typeof (JBool b) = ''boolean''"
| "typeof (JNum n) = ''number''"
| "typeof (JStr s) = ''string''"
| "typeof (JArr xs) = ''object''"
| "typeof (JObj kvs) = ''object''"

definition js_or :: "jsval \<Rightarrow> jsval \<Rightarrow> jsval" where
  "js_or a b = (if truthy a then a else b)"

text \<open>Decimal rendering of an integral number (Number::toString).\<close>

definition digit_char :: "nat \<Rightarrow> char" where
  "digit_char d = ''0123456789'' ! d"

function digits :: "nat \<Rightarrow> string" where
  "digits n = (if n < 10 then [digit_char n] else digits (n div 10) @ [digit_char (n mod 10)])"
  by pat_completeness auto
termination
  by (relation "measure id") auto

declare digits.simps [simp del]

definition show_int :: "int \<Rightarrow> string" where
  "show_int n = (if n < 0 then CHR ''-'' # digits (nat (- n)) else digits (nat n))"

fun commas :: "string list \<Rightarrow> string" where
  "commas [] = []"
| "commas [x] = x"
| "commas (x # y # zs) = x @ CHR '','' # commas (y # zs)"

text \<open>
  ToString, as applied by template literals, by \<^verbatim>\<open>String.prototype.indexOf\<close> to its
  argument and by \<^verbatim>\<open>localStorage.setItem\<close> to the value it is given. An array is joined
  with commas, its \<^verbatim>\<open>undefined\<close> and \<^verbatim>\<open>null\<close> elements rendered empty.
\<close>

fun ToString :: "jsval \<Rightarrow> string" where
  "ToString JUndefined = ''undefined''"
| "ToString JNull = ''null''"
| "ToString (JBool b) = (if b then ''true'' else ''false'')"
| "ToString (JNum n) = show_int n"
| "ToString (JStr s) = s"
| "ToString (JArr xs) =
     commas (map (\<lambda>x. if x = JUndefined \<or> x = JNull then [] else ToString x) xs)"
| "ToString (JObj kvs) = ''[object Object]''"

text \<open>
  \<^verbatim>\<open>Object.keys(w)\<close> and \<^verbatim>\<open>w[key]\<close>: the own enumerable properties of a value. An array
  and a string have their indices, a boolean and a number have none.
\<close>

fun own_entries :: "jsval \<Rightarrow> (string \<times> jsval) list" where
  "own_entries (JObj kvs) = kvs"
| "own_entries (JArr xs) = zip (map digits [0..<length xs]) xs"
| "own_entries (JStr s) = zip (map digits [0..<length s]) (map (\<lambda>c. JStr [c]) s)"
| "own_entries v = []"

definition Object_keys :: "jsval \<Rightarrow> string list" where
  "Object_keys w = map fst (own_entries w)"

definition get_property :: "jsval \<Rightarrow> string \<Rightarrow> jsval" where
  "get_property w k = (case map_of (own_entries w) k of None \<Rightarrow> JUndefined | Some v \<Rightarrow> v)"

text \<open>\<^verbatim>\<open>s.indexOf(p)\<close> on strings: the first position where \<open>p\<close> occurs in \<open>s\<close>, or -1.\<close>

fun String_indexOf :: "string \<Rightarrow> string \<Rightarrow> int" where
  "String_indexOf [] p = (if p = [] then 0 else - 1)"
| "String_indexOf (c # s) p =
     (if take (length p) (c # s) = p then 0
      else (let i = String_indexOf s p in if i = - 1 then - 1 else i + 1))"

text \<open>
  \<^verbatim>\<open>xs.indexOf(v)\<close> on arrays compares with strict equality. The elements searched for
  here are strings, which are strictly equal to a value exactly when that value is the
  same string.
\<close>

fun Array_indexOf :: "jsval list \<Rightarrow> jsval \<Rightarrow> int" where
  "Array_indexOf [] v = - 1"
| "Array_indexOf (x # xs) v =
     (if x = v then 0
      else (let i = Array_indexOf xs v in if i = - 1 then - 1 else i + 1))"

section \<open>JSON.stringify and JSON.parse\<close>

text \<open>
  The platform's \<^verbatim>\<open>JSON.stringify\<close> (without indentation) on the values above:
  \<^verbatim>\<open>undefined\<close> has no text, is \<^verbatim>\<open>null\<close> inside an array and is left out of an object.
\<close>

definition hex_char :: "nat \<Rightarrow> char" where
  "hex_char d = ''0123456789abcdef'' ! d"

definition escape_char :: "char \<Rightarrow> string" where
  "escape_char c =
    (if c = CHR 0x22 then [CHR 0x5C, CHR 0x22]
     else if c = CHR 0x5C then [CHR 0x5C, CHR 0x5C]
     else if c = CHR 0x08 then [CHR 0x5C, CHR ''b'']
     else if c = CHR 0x0C then [CHR 0x5C, CHR ''f'']
     else if c = CHR 0x0A then [CHR 0x5C, CHR ''n'']
     else if c = CHR 0x0D then [CHR 0x5C, CHR ''r'']
     else if c = CHR 0x09 then [CHR 0x5C, CHR ''t'']
     else if of_char c < (32::nat) then
       [CHR 0x5C, CHR ''u'', CHR ''0'', CHR ''0'',
        hex_char (of_char c div 16), hex_char (of_char c mod 16)]
     else [c])"

definition quote :: "string \<Rightarrow> string" where
  "quote s = CHR 0x22 # concat (map escape_char s) @ [CHR 0x22]"

fun stringify_val :: "jsval \<Rightarrow> string option" where
  "stringify_val JUndefined = None"
| "stringify_val JNull = Some ''null''"
| "stringify_val (JBool b) = Some (if b then ''true'' else ''false'')"
| "stringify_val (JNum n) = Some (show_int n)"
| "stringify_val (JStr s) = Some (quote s)"
| "stringify_val (JArr xs) =
     Some (''['' @ commas (map (\<lambda>x. case stringify_val x of None \<Rightarrow> ''null'' | Some t \<Rightarrow> t) xs)
           @ '']'')"
| "stringify_val (JObj kvs) =
     Some (''{'' @ commas (concat (map (\<lambda>(k, v). case stringify_val v of
                                                 None \<Rightarrow> []
                                               | Some t \<Rightarrow> [quote k @ '':'' @ t]) kvs))
           @ ''}'')"

definition JSON_stringify :: "jsval \<Rightarrow> jsval" where
  "JSON_stringify v = (case stringify_val v of None \<Rightarrow> JUndefined | Some t \<Rightarrow> JStr t)"

text \<open>
  \<^verbatim>\<open>JSON.parse\<close>: a recursive-descent reader of the JSON grammar, white space between
  tokens included. A number literal with a fraction or an exponent and a \<^verbatim>\<open>\u\<close> escape
  above 0xFF denote values outside the model and are not accepted. A repeated key keeps
  its first position and takes its last value.
\<close>

definition is_ws :: "char \<Rightarrow> bool" where
  "is_ws c = (c = CHR 0x20 \<or> c = CHR 0x09 \<or> c = CHR 0x0A \<or> c = CHR 0x0D)"

definition skip_ws :: "string \<Rightarrow> string" where
  "skip_ws s = dropWhile is_ws s"

definition is_digit :: "char \<Rightarrow> bool" where
  "is_digit c = (c \<in> set ''0123456789'')"

definition digit_val :: "char \<Rightarrow> nat" where
  "digit_val c = of_char c - 48"

definition hex_val :: "char \<Rightarrow> nat option" where
  "hex_val c =
     (let n = (of_char c :: nat) in
      if 48 \<le> n \<and> n \<le> 57 then Some (n - 48)
      else if 97 \<le> n \<and> n \<le> 102 then Some (n - 87)
      else if 65 \<le> n \<and> n \<le> 70 then Some (n - 55)
      else None)"

definition unescape :: "char \<Rightarrow> char option" where
  "unescape e =
     (if e = CHR 0x22 then Some (CHR 0x22)
      else if e = CHR 0x5C then Some (CHR 0x5C)
      else if e = CHR ''/'' then Some (CHR ''/'')
      else if e = CHR ''b'' then Some (CHR 0x08)
      else if e = CHR ''f'' then Some (CHR 0x0C)
      else if e = CHR ''n'' then Some (CHR 0x0A)
      else if e = CHR ''r'' then Some (CHR 0x0D)
      else if e = CHR ''t'' then Some (CHR 0x09)
      else None)"

definition code_unit :: "char \<Rightarrow> char \<Rightarrow> char \<Rightarrow> char \<Rightarrow> char option" where
  "code_unit a b c d =
     (case (hex_val a, hex_val b, hex_val c, hex_val d) of
        (Some h3, Some h2, Some h1, Some h0) \<Rightarrow>
          (let n = ((h3 * 16 + h2) * 16 + h1) * 16 + h0
           in if n < 256 then Some (char_of n) else None)
      | _ \<Rightarrow> None)"

definition cons_char :: "char \<Rightarrow> (string \<times> string) option \<Rightarrow> (string \<times> string) option" where
  "cons_char c r = map_option (\<lambda>(t, rest). (c # t, rest)) r"

text \<open>The characters of a string literal after its opening quote, and what follows it.\<close>

fun parse_chars :: "string \<Rightarrow> (string \<times> string) option" where
  "parse_chars [] = None"
| "parse_chars (c # cs) =
     (if c = CHR 0x22 then Some ([], cs)
      else if c = CHR 0x5C then
        (case cs of
           [] \<Rightarrow> None
         | e # cs1 \<Rightarrow>
             if e = CHR ''u'' then
               (case cs1 of
                  a # b # c # d # cs2 \<Rightarrow>
                    (case code_unit a b c d of
                       None \<Rightarrow> None
                     | Some u \<Rightarrow> cons_char u (parse_chars cs2))
                | _ \<Rightarrow> None)
             else
               (case unescape e of
                  None \<Rightarrow> None
                | Some u \<Rightarrow> cons_char u (parse_chars cs1)))
      else if (of_char c :: nat) < 32 then None
      else cons_char c (parse_chars cs))"

definition nat_of_digits :: "string \<Rightarrow> nat" where
  "nat_of_digits ds = foldl (\<lambda>acc c. 10 * acc + digit_val c) 0 ds"

definition parse_number :: "string \<Rightarrow> (int \<times> string) option" where
  "parse_number s =
     (let neg = (s \<noteq> [] \<and> hd s = CHR ''-'');
          t = (if neg then tl s else s);
          ds = takeWhile is_digit t;
          rest = dropWhile is_digit t
      in if ds = [] then None
         else if 1 < length ds \<and> hd ds = CHR ''0'' then None
         else if rest \<noteq> [] \<and> hd rest \<in> set ''.eE'' then None
         else Some (if neg then - int (nat_of_digits ds) else int (nat_of_digits ds), rest))"

text \<open>
  Defining an own property \<open>k\<close> with the value \<open>v\<close>, as \<^verbatim>\<open>JSON.parse\<close> does for each member
  it reads: replace in place, or add at the end.
\<close>

definition set_property :: "string \<Rightarrow> jsval \<Rightarrow> (string \<times> jsval) list \<Rightarrow> (string \<times> jsval) list" where
  "set_property k v obj = AList.update k v obj"

lemma parse_chars_shorter: "parse_chars s = Some (t, r) \<Longrightarrow> length r < length s"
proof (induction s arbitrary: t r rule: parse_chars.induct)
  case 1
  then show ?case by simp
next
  case (2 c cs)
  then show ?case
    by (fastforce simp: cons_char_def split: if_splits list.splits option.splits)
qed

lemma length_skip_ws: "length (skip_ws s) \<le> length s"
  by (simp add: skip_ws_def length_dropWhile_le)

lemma skip_ws_Cons_shorter: "skip_ws s = c # t \<Longrightarrow> length t < length s"
  using length_skip_ws [of s] by simp

function parse_value :: "string \<Rightarrow> (jsval \<times> string) option"
  and parse_elements :: "string \<Rightarrow> (jsval list \<times> string) option"
  and parse_members :: "string \<Rightarrow> ((string \<times> jsval) list \<times> string) option"
where
  "parse_value [] = None"
| "parse_value (c # r) =
     (if c = CHR ''n'' then (if take 3 r = ''ull'' then Some (JNull, drop 3 r) else None)
      else if c = CHR ''t'' then (if take 3 r = ''rue'' then Some (JBool True, drop 3 r) else None)
      else if c = CHR ''f'' then (if take 4 r = ''alse'' then Some (JBool False, drop 4 r) else None)
      else if c = CHR 0x22 then map_option (\<lambda>(t, r'). (JStr t, r')) (parse_chars r)
      else if c = CHR ''['' then
        (case skip_ws r of
           [] \<Rightarrow> None
         | d # r' \<Rightarrow>
             if d = CHR '']'' then Some (JArr [], r')
             else map_option (\<lambda>(vs, r''). (JArr vs, r'')) (parse_elements (skip_ws r)))
      else if c = CHR ''{'' then
        (case skip_ws r of
           [] \<Rightarrow> None
         | d # r' \<Rightarrow>
             if d = CHR ''}'' then Some (JObj [], r')
             else map_option
                    (\<lambda>(kvs, r''). (JObj (foldl (\<lambda>obj (k, v). set_property k v obj) [] kvs), r''))
                    (parse_members (skip_ws r)))
      else if c = CHR ''-'' \<or> is_digit c then
        map_option (\<lambda>(n, r'). (JNum n, r')) (parse_number (c # r))
      else None)"
| "parse_elements s =
     (case parse_value s of
        None \<Rightarrow> None
      | Some (v, r) \<Rightarrow>
          if length r < length s then
            (case skip_ws r of
               [] \<Rightarrow> None
             | c # r' \<Rightarrow>
                 if c = CHR '','' then
                   (case parse_elements (skip_ws r') of
                      None \<Rightarrow> None
                    | Some (vs, r'') \<Rightarrow> Some (v # vs, r''))
                 else if c = CHR '']'' then Some ([v], r')
                 else None)
          else None)"
| "parse_members s =
     (case s of
        [] \<Rightarrow> None
      | q # s1 \<Rightarrow>
          if q \<noteq> CHR 0x22 then None
          else
            (case parse_chars s1 of
               None \<Rightarrow> None
             | Some (k, r0) \<Rightarrow>
                 (case skip_ws r0 of
                    [] \<Rightarrow> None
                  | c # r1 \<Rightarrow>
                      if c \<noteq> CHR '':'' then None
                      else
                        (case parse_value (skip_ws r1) of
                           None \<Rightarrow> None
                         | Some (v, r2) \<Rightarrow>
                             if length r2 < length s then
                               (case skip_ws r2 of
                                  [] \<Rightarrow> None
                                | c' # r3 \<Rightarrow>
                                    if c' = CHR '','' then
                                      (case parse_members (skip_ws r3) of
                                         None \<Rightarrow> None
                                       | Some (kvs, r4) \<Rightarrow> Some ((k, v) # kvs, r4))
                                    else if c' = CHR ''}'' then Some ([(k, v)], r3)
                                    else None)
                             else None))))"
  by pat_completeness auto
termination
proof (relation "measure (\<lambda>x. case x of
                              Inl s \<Rightarrow> 2 * length s
                            | Inr (Inl s) \<Rightarrow> 2 * length s + 1
                            | Inr (Inr s) \<Rightarrow> 2 * length s + 1)", goal_cases)
  case 1
  show ?case by simp
next
  case (2 c r d r')
  then show ?case
    using skip_ws_Cons_shorter [of r d r'] length_skip_ws [of r] by simp
next
  case (3 c r d r')
  then show ?case
    using skip_ws_Cons_shorter [of r d r'] length_skip_ws [of r] by simp
next
  case (4 s)
  show ?case by simp
next
  case (5 s x2 v r c r')
  then show ?case
    using skip_ws_Cons_shorter [of r c r'] length_skip_ws [of r'] by simp
next
  case (6 s q s1 x2 k r0 c r1)
  then show ?case
    using parse_chars_shorter [of s1 k r0] skip_ws_Cons_shorter [of r0 c r1]
      length_skip_ws [of r1]
    by simp
next
  case (7 s q s1 x2 k r0 c r1 x2a v r2 c' r3)
  then show ?case
    using skip_ws_Cons_shorter [of r2 c' r3] length_skip_ws [of r3] by simp
qed

declare parse_elements.simps [simp del] parse_members.simps [simp del]

definition JSON_parse :: "string \<Rightarrow> js_error + jsval" where
  "JSON_parse s =
     (case parse_value (skip_ws s) of
        None \<Rightarrow> Inl SyntaxError
      | Some (v, r) \<Rightarrow> if skip_ws r = [] then Inr v else Inl SyntaxError)"

section \<open>The codec: wrap and unwrap\<close>

text \<open>
  \<^verbatim>\<open>wrap\<close> and \<^verbatim>\<open>unwrap\<close> of \<^verbatim>\<open>ArcLocalStorePreferences.js\<close>; the methods \<^verbatim>\<open>_wrap\<close> and
  \<^verbatim>\<open>_unwrap\<close> of the two Polymer elements have the same bodies (there \<^verbatim>\<open>_unwrap\<close> falls
  off its end after a caught error, which yields \<^verbatim>\<open>undefined\<close> as well).
\<close>

definition wrap :: "jsval \<Rightarrow> jsval" where
  "wrap val =
     (if typeof val = ''undefined'' \<or> val = JNull then val
      else JSON_stringify (JObj [(''value'', val)]))"

text \<open>\<^verbatim>\<open>data.value\<close>: a TypeError on \<^verbatim>\<open>undefined\<close> and \<^verbatim>\<open>null\<close>, a property read otherwise.\<close>

definition read_value :: "jsval \<Rightarrow> js_error + jsval" where
  "read_value data =
     (if data = JUndefined \<or> data = JNull then Inl TypeError
      else Inr (case data of
                  JObj kvs \<Rightarrow> (case map_of kvs ''value'' of None \<Rightarrow> JUndefined | Some v \<Rightarrow> v)
                | _ \<Rightarrow> JUndefined))"

definition unwrap :: "jsval \<Rightarrow> jsval" where
  "unwrap val =
     (if \<not> truthy val \<or> typeof val \<noteq> ''string'' then val
      else (case JSON_parse (ToString val) of
              Inl err \<Rightarrow> JUndefined
            | Inr data \<Rightarrow> (case read_value data of Inl err \<Rightarrow> JUndefined | Inr v \<Rightarrow> v)))"

section \<open>The browser: localStorage, events and timers\<close>

text \<open>
  \<^verbatim>\<open>localStorage\<close> holds string values under string keys, in a stable key order: a new
  key is added at the end, an overwritten key keeps its place and a removed key leaves
  the order of the others as it was. Whether the store takes a write is the store's own
  decision (a quota, a browser setting); \<open>refuses\<close> is that decision.
\<close>

record storage =
  items :: "(string \<times> string) list"
  refuses :: "(string \<times> string) list \<Rightarrow> string \<Rightarrow> string \<Rightarrow> bool"

definition Storage_length :: "storage \<Rightarrow> nat" where
  "Storage_length ls = length (items ls)"

definition Storage_key :: "storage \<Rightarrow> nat \<Rightarrow> string option" where
  "Storage_key ls i = (if i < length (items ls) then Some (fst (items ls ! i)) else None)"

definition Storage_getItem :: "storage \<Rightarrow> string \<Rightarrow> jsval" where
  "Storage_getItem ls k = (case map_of (items ls) k of None \<Rightarrow> JNull | Some s \<Rightarrow> JStr s)"

definition Storage_setItem :: "storage \<Rightarrow> string \<Rightarrow> string \<Rightarrow> js_error + storage" where
  "Storage_setItem ls k s =
     (if refuses ls (items ls) k s then Inl QuotaExceededError
      else Inr (ls\<lparr>items := AList.update k s (items ls)\<rparr>))"

definition Storage_removeItem :: "storage \<Rightarrow> string \<Rightarrow> storage" where
  "Storage_removeItem ls k = ls\<lparr>items := AList.delete k (items ls)\<rparr>"

text \<open>
  A custom event with the fields of \<^verbatim>\<open>detail\<close> that the handlers read and write.
  \<^verbatim>\<open>preventDefault\<close> has an effect on a cancelable event only.
\<close>

record event =
  event_type :: string
  cancelable :: bool
  defaultPrevented :: bool
  propagationStopped :: bool
  detail_name :: jsval
  detail_value :: jsval
  detail_settings :: jsval
  detail_result :: "jsval promise option"

definition preventDefault :: "event \<Rightarrow> event" where
  "preventDefault e = e\<lparr>defaultPrevented := (defaultPrevented e \<or> cancelable e)\<rparr>"

definition stopPropagation :: "event \<Rightarrow> event" where
  "stopPropagation e = e\<lparr>propagationStopped := True\<rparr>"

text \<open>
  The part of the browser the elements act on: the store, the events an element has
  dispatched, and the pending timeouts with the clock in milliseconds. A timeout is its
  handle and the time it is due; the only callback ever scheduled is the workspace
  element's flush. Handles are positive, as in every browser.
\<close>

record browser =
  localStorage :: storage
  dispatched :: "event list"
  timers :: "(nat \<times> nat) list"
  clock :: nat
  last_handle :: nat

definition setTimeout :: "nat \<Rightarrow> browser \<Rightarrow> nat \<times> browser" where
  "setTimeout delay b =
     (let h = Suc (last_handle b)
      in (h, b\<lparr>timers := timers b @ [(h, clock b + delay)], last_handle := h\<rparr>))"

definition clearTimeout :: "nat \<Rightarrow> browser \<Rightarrow> browser" where
  "clearTimeout h b = b\<lparr>timers := filter (\<lambda>t. fst t \<noteq> h) (timers b)\<rparr>"

section \<open>The preferences element\<close>

text \<open>
  \<^verbatim>\<open>ArcLocalStorePreferences\<close>, in its LitElement form
  (\<^verbatim>\<open>src/ArcLocalStorePreferences.js\<close>) and its Polymer form
  (\<^verbatim>\<open>arc-local-store-preferences.js\<close>). Its one property is \<^verbatim>\<open>dataPrefix\<close>.
\<close>

record element =
  dataPrefix :: jsval

definition informChanged :: "jsval \<Rightarrow> jsval \<Rightarrow> browser \<Rightarrow> browser" where
  "informChanged name val b =
     b\<lparr>dispatched := dispatched b @
        [\<lparr>event_type = ''settings-changed'', cancelable = False, defaultPrevented = False,
          propagationStopped = False, detail_name = name, detail_value = val,
          detail_settings = JUndefined, detail_result = None\<rparr>]\<rparr>"

text \<open>
  \<^verbatim>\<open>store(key, value)\<close>. In the LitElement form the method is \<^verbatim>\<open>async\<close>, so an error thrown
  by \<^verbatim>\<open>setItem\<close> rejects the promise it returns; in the Polymer form the \<^verbatim>\<open>catch\<close> block
  returns \<^verbatim>\<open>Promise.reject(e)\<close>. Both leave \<^verbatim>\<open>_informChanged\<close> out on that path.
\<close>

definition prefs_store :: "'a element_scheme \<Rightarrow> jsval \<Rightarrow> jsval \<Rightarrow> browser \<Rightarrow> jsval promise \<times> browser" where
  "prefs_store el key val b =
     (let prefix = js_or (dataPrefix el) (JStr []);
          sKey = ToString prefix @ ''.'' @ ToString key
      in case Storage_setItem (localStorage b) sKey (ToString (wrap val)) of
           Inl err \<Rightarrow> (Rejected err, b)
         | Inr ls \<Rightarrow> (Resolved JUndefined, informChanged key val (b\<lparr>localStorage := ls\<rparr>)))"

text \<open>
  The loop of \<^verbatim>\<open>clear()\<close>, from index \<open>n - 1\<close> down to 0. \<^verbatim>\<open>localStorage.key(i)\<close> is
  \<^verbatim>\<open>null\<close> past the end, and \<^verbatim>\<open>null.indexOf\<close> is a TypeError; the store is then left as it
  is at that point.
\<close>

fun clear_loop :: "string \<Rightarrow> nat \<Rightarrow> storage \<Rightarrow> js_error option \<times> storage" where
  "clear_loop prefix 0 ls = (None, ls)"
| "clear_loop prefix (Suc i) ls =
     (case Storage_key ls i of
        None \<Rightarrow> (Some TypeError, ls)
      | Some key \<Rightarrow>
          clear_loop prefix i
            (if String_indexOf key prefix = 0 then Storage_removeItem ls key else ls))"

definition prefs_clear :: "'a element_scheme \<Rightarrow> browser \<Rightarrow> jsval promise \<times> browser" where
  "prefs_clear el b =
     (let prefix = js_or (dataPrefix el) (JStr []);
          (err, ls) = clear_loop (ToString prefix) (Storage_length (localStorage b)) (localStorage b)
      in (case err of None \<Rightarrow> Resolved JUndefined | Some e \<Rightarrow> Rejected e, b\<lparr>localStorage := ls\<rparr>))"

text \<open>The Polymer \<^verbatim>\<open>clear()\<close> is not \<^verbatim>\<open>async\<close>: an error would be thrown to the caller.\<close>

definition legacy_prefs_clear :: "'a element_scheme \<Rightarrow> browser \<Rightarrow> js_error option \<times> browser" where
  "legacy_prefs_clear el b =
     (let prefix = js_or (dataPrefix el) (JStr []);
          (err, ls) = clear_loop (ToString prefix) (Storage_length (localStorage b)) (localStorage b)
      in (err, b\<lparr>localStorage := ls\<rparr>))"

text \<open>
  The assignment \<^verbatim>\<open>result[settingKey] = value\<close> on an object made by \<^verbatim>\<open>{}\<close>. For the key
  \<^verbatim>\<open>__proto__\<close> the assignment runs the setter that the object inherits from
  \<^verbatim>\<open>Object.prototype\<close>: it may give the object another prototype and adds no property. For
  every other key it defines the property. (An object of the model lists its own
  properties; its prototype is not part of it.)
\<close>

definition assign_property :: "string \<Rightarrow> jsval \<Rightarrow> (string \<times> jsval) list \<Rightarrow> (string \<times> jsval) list" where
  "assign_property k v obj = (if k = ''__proto__'' then obj else set_property k v obj)"

text \<open>
  \<^verbatim>\<open>scope && scope.indexOf(settingKey) === -1\<close>: whether the loop of \<^verbatim>\<open>load\<close> skips the
  key. \<^verbatim>\<open>indexOf\<close> is a method of arrays and of strings; on any other truthy value the
  call is a TypeError.
\<close>

definition out_of_scope :: "jsval \<Rightarrow> string \<Rightarrow> js_error + bool" where
  "out_of_scope scope settingKey =
     (if \<not> truthy scope then Inr False
      else (case scope of
              JArr xs \<Rightarrow> Inr (Array_indexOf xs (JStr settingKey) = - 1)
            | JStr s \<Rightarrow> Inr (String_indexOf s settingKey = - 1)
            | _ \<Rightarrow> Inl TypeError))"

text \<open>
  The loop of \<^verbatim>\<open>load\<close>, for \<open>i\<close> from its start up to \<open>len\<close>. The workspace elements
  have the same loop without the scope test, which is this loop at an \<^verbatim>\<open>undefined\<close> scope.
\<close>

function load_loop ::
  "string \<Rightarrow> jsval \<Rightarrow> storage \<Rightarrow> nat \<Rightarrow> nat \<Rightarrow> (string \<times> jsval) list \<Rightarrow> js_error + (string \<times> jsval) list"
where
  "load_loop prefix scope ls i len result =
     (if i < len then
        (case Storage_key ls i of
           None \<Rightarrow> Inl TypeError
         | Some key \<Rightarrow>
             if String_indexOf key prefix = 0 then
               (let settingKey = drop (length prefix) key
                in case out_of_scope scope settingKey of
                     Inl err \<Rightarrow> Inl err
                   | Inr True \<Rightarrow> load_loop prefix scope ls (Suc i) len result
                   | Inr False \<Rightarrow>
                       load_loop prefix scope ls (Suc i) len
                         (assign_property settingKey (unwrap (Storage_getItem ls key)) result))
             else load_loop prefix scope ls (Suc i) len result)
      else Inr result)"
  by pat_completeness auto
termination
  by (relation "measure (\<lambda>(prefix, scope, ls, i, len, result). len - i)") auto

declare load_loop.simps [simp del]

text \<open>
  \<^verbatim>\<open>load(scope)\<close> of the LitElement form: \<^verbatim>\<open>const { dataPrefix = '' } = this\<close> takes the
  default for \<^verbatim>\<open>undefined\<close> only, and the method is \<^verbatim>\<open>async\<close>.
\<close>

definition prefs_load :: "'a element_scheme \<Rightarrow> jsval \<Rightarrow> browser \<Rightarrow> jsval promise" where
  "prefs_load el scope b =
     (let dp = (if dataPrefix el = JUndefined then JStr [] else dataPrefix el);
          prefix = ToString dp @ ''.''
      in case load_loop prefix scope (localStorage b) 0 (Storage_length (localStorage b)) [] of
           Inl err \<Rightarrow> Rejected err
         | Inr result \<Rightarrow> Resolved (JObj result))"

text \<open>
  \<^verbatim>\<open>load(scope)\<close> of the Polymer form: \<^verbatim>\<open>(this.dataPrefix || '') + '.'\<close>, and a promise
  made by \<^verbatim>\<open>Promise.resolve\<close> at the end, so an error in the loop is thrown.
\<close>

definition legacy_prefs_load :: "'a element_scheme \<Rightarrow> jsval \<Rightarrow> browser \<Rightarrow> js_error + jsval promise" where
  "legacy_prefs_load el scope b =
     (let prefix = ToString (js_or (dataPrefix el) (JStr [])) @ ''.''
      in case load_loop prefix scope (localStorage b) 0 (Storage_length (localStorage b)) [] of
           Inl err \<Rightarrow> Inl err
         | Inr result \<Rightarrow> Inr (Resolved (JObj result)))"

text \<open>The handler of \<^verbatim>\<open>settings-changed\<close>, the same in both forms.\<close>

definition prefs_changeHandler :: "'a element_scheme \<Rightarrow> event \<Rightarrow> browser \<Rightarrow> event \<times> browser" where
  "prefs_changeHandler el e b =
     (if \<not> cancelable e \<or> defaultPrevented e then (e, b)
      else
        (let e1 = stopPropagation (preventDefault e);
             name = detail_name e1
         in if \<not> truthy name then
              (e1\<lparr>detail_result := Some (Rejected (Error ''Name is not set.''))\<rparr>, b)
            else
              (let (p, b') = prefs_store el name (detail_value e1) b
               in (e1\<lparr>detail_result := Some p\<rparr>, b'))))"

section \<open>The workspace element\<close>

text \<open>
  \<^verbatim>\<open>ArcLocalStoreWorkspace\<close> in its LitElement form (\<^verbatim>\<open>src/ArcLocalStoreWorkspace.js\<close>):
  the property \<^verbatim>\<open>dataPrefix\<close>, which the constructor sets to \<^verbatim>\<open>_arcworkspace\<close>, and the two
  private fields of the debouncer. The Polymer form (\<^verbatim>\<open>arc-local-store-workspace.js\<close>)
  declares a property \<^verbatim>\<open>prefix\<close> instead, which none of its methods reads: \<^verbatim>\<open>store\<close>,
  \<^verbatim>\<open>_store\<close>, \<^verbatim>\<open>clear\<close> and the handler have the bodies of the LitElement form and read
  \<^verbatim>\<open>this.dataPrefix\<close> as well.
\<close>

record workspace = element +
  pendingWorkspace :: jsval
  workspaceWriteDebounce :: "nat option"

text \<open>One round of the \<^verbatim>\<open>forEach\<close> in \<^verbatim>\<open>_store\<close>: a write that throws is passed over.\<close>

definition store_field :: "'a workspace_scheme \<Rightarrow> jsval \<Rightarrow> browser \<Rightarrow> string \<Rightarrow> browser" where
  "store_field el workspace b key =
     (let prefix = js_or (dataPrefix el) (JStr []);
          sKey = ToString prefix @ ''.'' @ key;
          val = get_property workspace key
      in case Storage_setItem (localStorage b) sKey (ToString (wrap val)) of
           Inl err \<Rightarrow> b
         | Inr ls \<Rightarrow> b\<lparr>localStorage := ls\<rparr>)"

definition ws_store_now :: "'a workspace_scheme \<Rightarrow> jsval \<Rightarrow> browser \<Rightarrow> browser" where
  "ws_store_now el workspace b =
     (if \<not> truthy workspace then b
      else foldl (store_field el workspace) b (Object_keys workspace))"

text \<open>
  \<^verbatim>\<open>store(value)\<close>: the debouncer. \<open>ws_store_now\<close> above is the method \<^verbatim>\<open>_store\<close>, and
  \<open>ws_flush\<close> is the callback given to \<^verbatim>\<open>setTimeout\<close>.
\<close>

definition ws_store :: "'a workspace_scheme \<Rightarrow> jsval \<Rightarrow> browser \<Rightarrow> 'a workspace_scheme \<times> browser" where
  "ws_store el val b =
     (let el1 = el\<lparr>pendingWorkspace := val\<rparr>;
          b1 = (case workspaceWriteDebounce el1 of
                  None \<Rightarrow> b
                | Some h \<Rightarrow> if h \<noteq> 0 then clearTimeout h b else b);
          (h', b2) = setTimeout 500 b1
      in (el1\<lparr>workspaceWriteDebounce := Some h'\<rparr>, b2))"

definition ws_flush :: "'a workspace_scheme \<times> browser \<Rightarrow> 'a workspace_scheme \<times> browser" where
  "ws_flush w =
     (let el1 = (fst w)\<lparr>workspaceWriteDebounce := None\<rparr>;
          b1 = ws_store_now el1 (pendingWorkspace el1) (snd w)
      in (el1\<lparr>pendingWorkspace := JUndefined\<rparr>, b1))"

text \<open>
  The passing of \<open>dt\<close> milliseconds: the timeouts that are due by then leave the queue
  and run, in the order they were set.
\<close>

definition advance :: "nat \<Rightarrow> 'a workspace_scheme \<times> browser \<Rightarrow> 'a workspace_scheme \<times> browser" where
  "advance dt w =
     (let b = snd w;
          now = clock b + dt;
          due = filter (\<lambda>t. snd t \<le> now) (timers b);
          b1 = b\<lparr>timers := filter (\<lambda>t. \<not> snd t \<le> now) (timers b), clock := now\<rparr>
      in foldl (\<lambda>w' t. ws_flush w') (fst w, b1) due)"

text \<open>\<^verbatim>\<open>clear()\<close> of the workspace elements: \<^verbatim>\<open>const prefix = this.dataPrefix\<close>, as it is.\<close>

definition ws_clear :: "'a workspace_scheme \<Rightarrow> browser \<Rightarrow> js_error option \<times> browser" where
  "ws_clear el b =
     (let prefix = dataPrefix el;
          (err, ls) = clear_loop (ToString prefix) (Storage_length (localStorage b)) (localStorage b)
      in (err, b\<lparr>localStorage := ls\<rparr>))"

text \<open>\<^verbatim>\<open>load()\<close> of the LitElement form.\<close>

definition ws_load :: "'a workspace_scheme \<Rightarrow> browser \<Rightarrow> jsval promise" where
  "ws_load el b =
     (let dp = (if dataPrefix el = JUndefined then JStr [] else dataPrefix el);
          prefix = ToString dp @ ''.''
      in case load_loop prefix JUndefined (localStorage b) 0 (Storage_length (localStorage b)) [] of
           Inl err \<Rightarrow> Rejected err
         | Inr result \<Rightarrow> Resolved (JObj result))"

text \<open>The handler of \<^verbatim>\<open>workspace-state-store\<close>, the same in both forms.\<close>

definition ws_changeHandler ::
  "'a workspace_scheme \<Rightarrow> event \<Rightarrow> browser \<Rightarrow> event \<times> 'a workspace_scheme \<times> browser" where
  "ws_changeHandler el e b =
     (if \<not> cancelable e \<or> defaultPrevented e then (e, el, b)
      else
        (let e1 = stopPropagation (preventDefault e);
             val = detail_value e1
         in if \<not> truthy val then
              (e1\<lparr>detail_result := Some (Rejected (Error ''Value is not set.''))\<rparr>, el, b)
            else (e1, ws_store el val b)))"

section \<open>Notions of the statements\<close>

text \<open>
  The JSON text of a value, as \<^verbatim>\<open>JSON.stringify\<close> writes it where the value stands inside
  an array, and the text of one member of an object.
\<close>

definition json_text :: "jsval \<Rightarrow> string" where
  "json_text v = (case stringify_val v of None \<Rightarrow> ''null'' | Some t \<Rightarrow> t)"

definition member_text :: "string \<times> jsval \<Rightarrow> string" where
  "member_text kv = quote (fst kv) @ '':'' @ json_text (snd kv)"

text \<open>
  A JSON-serializable value: no \<^verbatim>\<open>undefined\<close> anywhere in it, and no object in it with a
  key twice.
\<close>

fun json_serializable :: "jsval \<Rightarrow> bool" where
  "json_serializable JUndefined = False"
| "json_serializable JNull = True"
| "json_serializable (JBool b) = True"
| "json_serializable (JNum n) = True"
| "json_serializable (JStr s) = True"
| "json_serializable (JArr xs) = (\<forall>x \<in> set xs. json_serializable x)"
| "json_serializable (JObj kvs) =
     (distinct (map fst kvs) \<and> (\<forall>kv \<in> set kvs. json_serializable (snd kv)))"

text \<open>What may follow a value inside a JSON text, and a value that is read back from its text.\<close>

definition delim :: "string \<Rightarrow> bool" where
  "delim rest = (rest = [] \<or> hd rest \<in> set '',]}'')"

definition parses_back :: "jsval \<Rightarrow> bool" where
  "parses_back v =
     (\<forall>rest. delim rest \<longrightarrow> parse_value (json_text v @ rest) = Some (v, rest))"

text \<open>
  The debouncer and the timeout queue agree: either no timeout is pending and the element
  holds no handle, or the element holds the (positive) handle of the one pending timeout.
\<close>

definition ws_consistent :: "'a workspace_scheme \<Rightarrow> browser \<Rightarrow> bool" where
  "ws_consistent el b =
     (case workspaceWriteDebounce el of
        None \<Rightarrow> timers b = []
      | Some h \<Rightarrow> h \<noteq> 0 \<and> map fst (timers b) = [h])"

text \<open>
  What one round of the loop of \<^verbatim>\<open>load\<close> does to the result when the scope is absent or
  an array: \<open>in_scope\<close> is the membership test, \<open>load_step\<close> the round.
\<close>

definition in_scope :: "jsval \<Rightarrow> string \<Rightarrow> bool" where
  "in_scope scope k = (case scope of JArr xs \<Rightarrow> JStr k \<in> set xs | _ \<Rightarrow> True)"

definition load_step ::
  "string \<Rightarrow> jsval \<Rightarrow> storage \<Rightarrow> (string \<times> jsval) list \<Rightarrow> string \<Rightarrow> (string \<times> jsval) list" where
  "load_step p scope ls result key =
     (if take (length p) key = p \<and> in_scope scope (drop (length p) key)
      then assign_property (drop (length p) key) (unwrap (Storage_getItem ls key)) result
      else result)"

text \<open>\<open>starts_with k p\<close>: the string \<open>k\<close> begins with \<open>p\<close>.\<close>

definition starts_with :: "string \<Rightarrow> string \<Rightarrow> bool" where
  "starts_with k p = (take (length p) k = p)"

text \<open>The \<^verbatim>\<open>settings-changed\<close> event that \<^verbatim>\<open>_informChanged(name, value)\<close> dispatches.\<close>

definition notification :: "jsval \<Rightarrow> jsval \<Rightarrow> event" where
  "notification name val =
     \<lparr>event_type = ''settings-changed'', cancelable = False, defaultPrevented = False,
      propagationStopped = False, detail_name = name, detail_value = val,
      detail_settings = JUndefined, detail_result = None\<rparr>"

section \<open>Sample data\<close>

text \<open>Inputs for the worked examples: a store that takes every write, and an event.\<close>

definition sample_storage :: "(string \<times> string) list \<Rightarrow> storage" where
  "sample_storage kvs = \<lparr>items = kvs, refuses = (\<lambda>its k s. False)\<rparr>"

definition sample_browser :: "(string \<times> string) list \<Rightarrow> browser" where
  "sample_browser kvs =
     \<lparr>localStorage = sample_storage kvs, dispatched = [], timers = [], clock = 0,
      last_handle = 0\<rparr>"

text \<open>The store of the repository's tests of \<^verbatim>\<open>load\<close>.\<close>

definition test_browser :: browser where
  \<open>test_browser =
     sample_browser
       [(''_arc_.a'', ''{"value":"a"}''), (''_arc_.b'', ''{"value":true}''),
        (''_arc_.c'', ''{"value":12}''), (''_arc_.d'', ''{"value":null}'')]\<close>

definition sample_event :: "bool \<Rightarrow> bool \<Rightarrow> jsval \<Rightarrow> jsval \<Rightarrow> event" where
  "sample_event c p name val =
     \<lparr>event_type = ''request'', cancelable = c, defaultPrevented = p,
      propagationStopped = False, detail_name = name, detail_value = val,
      detail_settings = JUndefined, detail_result = None\<rparr>"

definition full_browser :: "(string \<times> string) list \<Rightarrow> browser" where
  "full_browser kvs =
     \<lparr>localStorage = \<lparr>items = kvs, refuses = (\<lambda>its k s. True)\<rparr>, dispatched = [],
      timers = [], clock = 0, last_handle = 0\<rparr>"

definition sample_workspace :: "jsval \<Rightarrow> workspace" where
  "sample_workspace p =
     \<lparr>dataPrefix = p, pendingWorkspace = JUndefined, workspaceWriteDebounce = None\<rparr>"


section \<open>Write requests that are not handled\<close>

text \<open>
  C10. A \<^verbatim>\<open>settings-changed\<close> or \<^verbatim>\<open>workspace-state-store\<close> event that is not cancelable,
  or whose default is already prevented, passes through its handler untouched: the event
  comes back as it was (no result, no change to \<^verbatim>\<open>defaultPrevented\<close>), and so do the
  element (its pending workspace and its debouncer) and the browser (the store, the
  timeouts, the dispatched events), which a call of \<^verbatim>\<open>store\<close> would have changed.
\<close>

theorem changeHandler_ignores:
  assumes "\<not> cancelable e \<or> defaultPrevented e"
  shows "prefs_changeHandler el e b = (e, b) \<and> ws_changeHandler w e b = (e, w, b)"
  using assms by (simp add: prefs_changeHandler_def ws_changeHandler_def)

theorem changeHandler_ignores_witness:
  "\<not> cancelable (sample_event False False (JStr ''k'') (JBool True))
   \<and> prefs_changeHandler \<lparr>dataPrefix = JStr ''_arc_''\<rparr>
        (sample_event False False (JStr ''k'') (JBool True)) (sample_browser [])
      = (sample_event False False (JStr ''k'') (JBool True), sample_browser [])
   \<and> ws_changeHandler (sample_workspace (JStr ''_arcworkspace''))
        (sample_event False False (JStr ''k'') (JBool True)) (sample_browser [])
      = (sample_event False False (JStr ''k'') (JBool True),
         sample_workspace (JStr ''_arcworkspace''), sample_browser [])"
  using changeHandler_ignores
    [of "sample_event False False (JStr ''k'') (JBool True)"
      "\<lparr>dataPrefix = JStr ''_arc_''\<rparr>" "sample_browser []"
      "sample_workspace (JStr ''_arcworkspace'')"]
  by (simp add: sample_event_def)

section \<open>Storing a preference\<close>

lemma typeof_undefined [simp]: "typeof v = ''undefined'' \<longleftrightarrow> v = JUndefined"
  by (cases v) simp_all

lemma typeof_string: "typeof v = ''string'' \<longleftrightarrow> (\<exists>s. v = JStr s)"
  by (cases v) simp_all

lemma quote_value: \<open>quote ''value'' = ''"value"''\<close>
  by (simp add: quote_def escape_char_def)

lemma stringify_val_None: "stringify_val v = None \<longleftrightarrow> v = JUndefined"
  by (cases v) simp_all

lemma stringify_val_text: "v \<noteq> JUndefined \<Longrightarrow> stringify_val v = Some (json_text v)"
  using stringify_val_None [of v] by (auto simp: json_text_def)

lemma wrap_text:
  assumes "val \<noteq> JUndefined" and "val \<noteq> JNull"
  shows \<open>wrap val = JStr (''{"value":'' @ json_text val @ ''}'')\<close>
  using assms
  by (simp add: wrap_def JSON_stringify_def stringify_val_text quote_value)

lemma ToString_prefix [simp]: "ToString (js_or (JStr p) (JStr [])) = p"
  by (simp add: js_or_def)

text \<open>
  C6. With a string prefix \<open>p\<close>, a call \<^verbatim>\<open>store(k, v)\<close> for a value \<open>v\<close> other than
  \<^verbatim>\<open>undefined\<close> and \<^verbatim>\<open>null\<close> that succeeds has made one write, of the JSON text
  \<^verbatim>\<open>{"value":v}\<close> under the key \<open>p.k\<close> (the store is otherwise as it was), and has
  dispatched one \<^verbatim>\<open>settings-changed\<close> event, which carries \<open>k\<close> and the value \<open>v\<close> itself.
\<close>

theorem prefs_store_postcondition:
  assumes "dataPrefix el = JStr p" and "val \<noteq> JUndefined" and "val \<noteq> JNull"
    and "fst (prefs_store el (JStr k) val b) = Resolved u"
  shows \<open>prefs_store el (JStr k) val b =
           (Resolved JUndefined,
            b\<lparr>localStorage := (localStorage b)
                 \<lparr>items := AList.update (p @ ''.'' @ k) (''{"value":'' @ json_text val @ ''}'')
                             (items (localStorage b))\<rparr>,
              dispatched := dispatched b @ [notification (JStr k) val]\<rparr>)
         \<and> Storage_getItem (localStorage (snd (prefs_store el (JStr k) val b))) (p @ ''.'' @ k)
             = JStr (''{"value":'' @ json_text val @ ''}'')\<close>
  using assms
  by (auto simp: prefs_store_def Storage_setItem_def Storage_getItem_def wrap_text Let_def
      informChanged_def notification_def update_conv' split: if_splits)

theorem prefs_store_postcondition_witness:
  \<open>prefs_store \<lparr>dataPrefix = JStr ''_arc_''\<rparr> (JStr ''key'') (JBool True) (sample_browser []) =
     (Resolved JUndefined,
      \<lparr>localStorage = sample_storage [(''_arc_.key'', ''{"value":true}'')],
       dispatched = [notification (JStr ''key'') (JBool True)],
       timers = [], clock = 0, last_handle = 0\<rparr>)
   \<and> Storage_getItem
        (localStorage (snd (prefs_store \<lparr>dataPrefix = JStr ''_arc_''\<rparr> (JStr ''key'') (JBool True)
           (sample_browser []))))
        ''_arc_.key''
      = JStr ''{"value":true}''\<close>
proof -
  have ok: "fst (prefs_store \<lparr>dataPrefix = JStr ''_arc_''\<rparr> (JStr ''key'') (JBool True)
              (sample_browser [])) = Resolved JUndefined"
    by (simp add: prefs_store_def Storage_setItem_def sample_browser_def sample_storage_def
        js_or_def)
  show ?thesis
    using prefs_store_postcondition
      [of "\<lparr>dataPrefix = JStr ''_arc_''\<rparr>" "''_arc_''" "JBool True" "''key''"
        "sample_browser []" JUndefined, OF _ _ _ ok]
    by (simp add: json_text_def sample_browser_def sample_storage_def Storage_getItem_def)
qed

text \<open>
  C7. When the store refuses the write, \<^verbatim>\<open>store(key, value)\<close> returns a promise rejected
  with the error that \<^verbatim>\<open>setItem\<close> raised, and leaves the browser as it was: nothing is
  written and no \<^verbatim>\<open>settings-changed\<close> event is dispatched.
\<close>

theorem prefs_store_rejected:
  assumes "Storage_setItem (localStorage b)
             (ToString (js_or (dataPrefix el) (JStr [])) @ ''.'' @ ToString key)
             (ToString (wrap val)) = Inl err"
  shows "prefs_store el key val b = (Rejected err, b)
         \<and> dispatched (snd (prefs_store el key val b)) = dispatched b"
  using assms by (simp add: prefs_store_def Let_def)

theorem prefs_store_rejected_witness:
  "prefs_store \<lparr>dataPrefix = JStr ''_arc_''\<rparr> (JStr ''key'') (JBool True) (full_browser [])
     = (Rejected QuotaExceededError, full_browser [])
   \<and> dispatched (snd (prefs_store \<lparr>dataPrefix = JStr ''_arc_''\<rparr> (JStr ''key'') (JBool True)
        (full_browser []))) = []"
proof -
  have no: "Storage_setItem (localStorage (full_browser []))
              (ToString (js_or (dataPrefix \<lparr>dataPrefix = JStr ''_arc_''\<rparr>) (JStr [])) @ ''.''
                 @ ToString (JStr ''key''))
              (ToString (wrap (JBool True))) = Inl QuotaExceededError"
    by (simp add: Storage_setItem_def full_browser_def)
  show ?thesis
    using prefs_store_rejected [OF no] by (simp add: full_browser_def)
qed

section \<open>The codec round trip\<close>

subsection \<open>Numbers\<close>

lemma digit_val_digit_char: "d < 10 \<Longrightarrow> digit_val (digit_char d) = d"
proof -
  assume "d < 10"
  then have "d \<in> {0,1,2,3,4,5,6,7,8,9}" by auto
  then show ?thesis
    by (auto simp: digit_val_def digit_char_def)
qed

lemma is_digit_digit_char: "d < 10 \<Longrightarrow> is_digit (digit_char d)"
proof -
  assume "d < 10"
  then have "d \<in> {0,1,2,3,4,5,6,7,8,9}" by auto
  then show ?thesis
    by (auto simp: is_digit_def digit_char_def)
qed

lemma digit_char_zero: "d < 10 \<Longrightarrow> digit_char d = CHR ''0'' \<longleftrightarrow> d = 0"
proof -
  assume "d < 10"
  then have "d \<in> {0,1,2,3,4,5,6,7,8,9}" by auto
  then show ?thesis
    by (auto simp: digit_char_def)
qed

lemma digits_is_digit: "c \<in> set (digits n) \<Longrightarrow> is_digit c"
proof (induction n arbitrary: c rule: digits.induct)
  case (1 n)
  show ?case
  proof (cases "n < 10")
    case True
    with "1.prems" show ?thesis by (simp add: digits.simps [of n] is_digit_digit_char)
  next
    case False
    with "1.prems" "1.IH" show ?thesis
      by (auto simp: digits.simps [of n] is_digit_digit_char)
  qed
qed

lemma digits_not_Nil: "digits n \<noteq> []"
  by (subst digits.simps) simp

lemma nat_of_digits_digits: "nat_of_digits (digits n) = n"
proof (induction n rule: digits.induct)
  case (1 n)
  show ?case
  proof (cases "n < 10")
    case True
    then show ?thesis by (simp add: digits.simps [of n] nat_of_digits_def digit_val_digit_char)
  next
    case False
    with "1.IH" show ?thesis
      by (simp add: digits.simps [of n] nat_of_digits_def digit_val_digit_char)
  qed
qed

lemma hd_digits: "0 < n \<Longrightarrow> hd (digits n) \<noteq> CHR ''0''"
proof (induction n rule: digits.induct)
  case (1 n)
  show ?case
  proof (cases "n < 10")
    case True
    with "1.prems" show ?thesis by (simp add: digits.simps [of n] digit_char_zero)
  next
    case False
    then have "0 < n div 10" by simp
    with False "1.IH" show ?thesis
      by (simp add: digits.simps [of n] digits_not_Nil)
  qed
qed

lemma length_digits: "1 < length (digits n) \<Longrightarrow> 0 < n"
  by (cases "n < 10") (auto simp: digits.simps [of n])

lemma delim_not_digit: "delim rest \<Longrightarrow> rest \<noteq> [] \<Longrightarrow> \<not> is_digit (hd rest) \<and> hd rest \<notin> set ''.eE''"
  by (auto simp: delim_def is_digit_def)

lemma takeWhile_digits: "delim rest \<Longrightarrow> takeWhile is_digit (digits n @ rest) = digits n"
  using delim_not_digit [of rest]
  by (cases rest) (auto simp: takeWhile_append2 digits_is_digit)

lemma dropWhile_digits: "delim rest \<Longrightarrow> dropWhile is_digit (digits n @ rest) = rest"
  using delim_not_digit [of rest]
  by (cases rest) (auto simp: dropWhile_append2 digits_is_digit)

lemma hd_digits_not_minus: "hd (digits n) \<noteq> CHR ''-''"
proof -
  have "hd (digits n) \<in> set (digits n)" by (simp add: digits_not_Nil)
  then have "is_digit (hd (digits n))" by (rule digits_is_digit)
  then show ?thesis by (auto simp: is_digit_def)
qed

lemma parse_number_show_int:
  assumes "delim rest"
  shows "parse_number (show_int n @ rest) = Some (n, rest)"
proof (cases "n < 0")
  case True
  have "\<not> (1 < length (digits (nat (- n))) \<and> hd (digits (nat (- n))) = CHR ''0'')"
    using hd_digits [of "nat (- n)"] length_digits [of "nat (- n)"] by auto
  with True assms show ?thesis
    using delim_not_digit [of rest]
    by (auto simp: parse_number_def show_int_def takeWhile_digits dropWhile_digits
        digits_not_Nil nat_of_digits_digits Let_def)
next
  case False
  have nz: "\<not> (1 < length (digits (nat n)) \<and> hd (digits (nat n)) = CHR ''0'')"
    using hd_digits [of "nat n"] length_digits [of "nat n"] by auto
  have "hd (digits (nat n) @ rest) \<noteq> CHR ''-''"
    using hd_digits_not_minus [of "nat n"] by (simp add: digits_not_Nil)
  with False assms nz show ?thesis
    using delim_not_digit [of rest]
    by (auto simp: parse_number_def show_int_def takeWhile_digits dropWhile_digits
        digits_not_Nil nat_of_digits_digits Let_def)
qed


subsection \<open>Strings\<close>

lemma hex_val_hex_char: "d < 16 \<Longrightarrow> hex_val (hex_char d) = Some d"
proof -
  assume "d < 16"
  then have "d \<in> {0,1,2,3,4,5,6,7,8,9,10,11,12,13,14,15}" by simp arith
  then show ?thesis
    by (auto simp: hex_val_def hex_char_def)
qed

lemma code_unit_control:
  assumes "(of_char c :: nat) < 32"
  shows "code_unit (CHR ''0'') (CHR ''0'') (hex_char (of_char c div 16)) (hex_char (of_char c mod 16)) = Some c"
proof -
  have z: "hex_val (CHR ''0'') = Some 0" by (simp add: hex_val_def)
  have hi: "hex_val (hex_char (of_char c div 16)) = Some (of_char c div 16)"
    using assms by (intro hex_val_hex_char) simp
  have lo: "hex_val (hex_char (of_char c mod 16)) = Some (of_char c mod 16)"
    by (intro hex_val_hex_char) simp
  have "(of_char c :: nat) div 16 * 16 + of_char c mod 16 = of_char c" by simp
  with assms show ?thesis
    by (simp add: code_unit_def z hi lo)
qed

lemma parse_chars_escape:
  "parse_chars (escape_char c @ tail) = cons_char c (parse_chars tail)"
proof -
  consider (named) "c \<in> {CHR 0x22, CHR 0x5C, CHR 0x08, CHR 0x0C, CHR 0x0A, CHR 0x0D, CHR 0x09}"
    | (control) "c \<notin> {CHR 0x22, CHR 0x5C, CHR 0x08, CHR 0x0C, CHR 0x0A, CHR 0x0D, CHR 0x09}" "(of_char c :: nat) < 32"
    | (plain) "c \<notin> {CHR 0x22, CHR 0x5C, CHR 0x08, CHR 0x0C, CHR 0x0A, CHR 0x0D, CHR 0x09}" "\<not> (of_char c :: nat) < 32"
    by blast
  then show ?thesis
  proof cases
    case named
    then show ?thesis
      by (auto simp: escape_char_def unescape_def)
  next
    case control
    then show ?thesis
      by (simp add: escape_char_def code_unit_control)
  next
    case plain
    then show ?thesis
      by (simp add: escape_char_def)
  qed
qed

lemma parse_chars_escaped:
  "parse_chars (concat (map escape_char s) @ CHR 0x22 # rest) = Some (s, rest)"
  by (induction s) (simp_all add: parse_chars_escape cons_char_def)

lemma parse_chars_quote:
  "parse_chars (tl (quote s) @ rest) = Some (s, rest)"
  using parse_chars_escaped [of s rest] by (simp add: quote_def)

subsection \<open>Values\<close>

lemma json_text_JArr: "json_text (JArr xs) = ''['' @ commas (map json_text xs) @ '']''"
  by (simp add: json_text_def [abs_def])

lemma members_defined:
  "\<forall>kv \<in> set kvs. snd kv \<noteq> JUndefined \<Longrightarrow>
   concat (map (\<lambda>(k, v). case stringify_val v of None \<Rightarrow> [] | Some t \<Rightarrow> [quote k @ '':'' @ t]) kvs)
     = map member_text kvs"
  by (induction kvs) (auto simp: member_text_def stringify_val_text)

lemma json_text_JObj:
  "\<forall>kv \<in> set kvs. snd kv \<noteq> JUndefined \<Longrightarrow>
   json_text (JObj kvs) = ''{'' @ commas (map member_text kvs) @ ''}''"
  by (simp add: json_text_def members_defined)

lemma show_int_head: "\<exists>c t. show_int n = c # t \<and> (c = CHR ''-'' \<or> is_digit c)"
proof (cases "n < 0")
  case True
  then show ?thesis by (simp add: show_int_def)
next
  case False
  obtain c t where ct: "digits (nat n) = c # t"
    using digits_not_Nil [of "nat n"] by (cases "digits (nat n)") auto
  then have "is_digit c" using digits_is_digit [of c "nat n"] by simp
  with False ct show ?thesis by (simp add: show_int_def)
qed

lemma json_text_head: "\<exists>c t. json_text v = c # t \<and> \<not> is_ws c \<and> c \<noteq> CHR '']''"
proof (cases v)
  case (JNum n)
  obtain c t where "show_int n = c # t" "c = CHR ''-'' \<or> is_digit c"
    using show_int_head by blast
  with JNum show ?thesis by (auto simp: json_text_def is_ws_def is_digit_def)
qed (auto simp: json_text_def is_ws_def quote_def)

lemma skip_ws_json_text [simp]: "skip_ws (json_text v @ r) = json_text v @ r"
  using json_text_head [of v] by (auto simp: skip_ws_def)

lemma json_text_not_Nil [simp]: "json_text v \<noteq> []"
  using json_text_head [of v] by auto

lemma skip_ws_nonws: "\<not> is_ws c \<Longrightarrow> skip_ws (c # r) = c # r"
  by (simp add: skip_ws_def)

lemma commas_Cons: "xs \<noteq> [] \<Longrightarrow> commas (x # xs) = x @ CHR '','' # commas xs"
  by (cases xs) simp_all

lemma skip_ws_elements:
  "xs \<noteq> [] \<Longrightarrow> skip_ws (commas (map json_text xs) @ r) = commas (map json_text xs) @ r"
  by (cases xs; cases "tl xs") auto

lemma skip_ws_members:
  "kvs \<noteq> [] \<Longrightarrow> skip_ws (commas (map member_text kvs) @ r) = commas (map member_text kvs) @ r"
  by (cases kvs; cases "tl kvs") (auto simp: member_text_def quote_def skip_ws_def is_ws_def)

lemma hd_elements:
  assumes "xs \<noteq> []"
  shows "\<exists>c t. commas (map json_text xs) @ r = c # t \<and> c \<noteq> CHR '']''"
proof -
  obtain x ys where xs: "xs = x # ys" using assms by (cases xs) auto
  obtain c t where "json_text x = c # t" "c \<noteq> CHR '']''"
    using json_text_head [of x] by blast
  then show ?thesis by (cases ys) (auto simp: xs)
qed

lemma delim_simps [simp]:
  "delim []" "delim (CHR '','' # r)" "delim (CHR '']'' # r)" "delim (CHR ''}'' # r)"
  by (simp_all add: delim_def)

lemma parse_elements_text:
  assumes "xs \<noteq> []" and "\<forall>x \<in> set xs. parses_back x"
  shows "parse_elements (commas (map json_text xs) @ CHR '']'' # rest) = Some (xs, rest)"
  using assms
proof (induction xs rule: list_nonempty_induct)
  case (single x)
  then have "parse_value (json_text x @ CHR '']'' # rest) = Some (x, CHR '']'' # rest)"
    by (simp add: parses_back_def)
  then show ?case
    by (subst parse_elements.simps) (simp add: skip_ws_nonws is_ws_def)
next
  case (cons x xs)
  let ?tail = "commas (map json_text xs) @ CHR '']'' # rest"
  have "parse_value (json_text x @ CHR '','' # ?tail) = Some (x, CHR '','' # ?tail)"
    using cons.prems by (simp add: parses_back_def)
  moreover have "parse_elements ?tail = Some (xs, rest)"
    using cons by simp
  moreover have "skip_ws ?tail = ?tail"
    using cons.hyps skip_ws_elements [of xs] by simp
  ultimately show ?case
    using cons.hyps
    by (subst parse_elements.simps) (simp add: commas_Cons skip_ws_nonws is_ws_def)
qed

lemma parse_members_text:
  assumes "kvs \<noteq> []" and "\<forall>kv \<in> set kvs. parses_back (snd kv)"
  shows "parse_members (commas (map member_text kvs) @ CHR ''}'' # rest) = Some (kvs, rest)"
  using assms
proof (induction kvs rule: list_nonempty_induct)
  case (single kv)
  obtain k v where kv: "kv = (k, v)" by (cases kv)
  let ?after = "CHR '':'' # json_text v @ CHR ''}'' # rest"
  have key: "parse_chars (tl (quote k) @ ?after) = Some (k, ?after)"
    by (rule parse_chars_quote)
  have val: "parse_value (json_text v @ CHR ''}'' # rest) = Some (v, CHR ''}'' # rest)"
    using single kv by (simp add: parses_back_def)
  have q: "quote k = CHR 0x22 # tl (quote k)" by (simp add: quote_def)
  have "member_text kv @ CHR ''}'' # rest = CHR 0x22 # tl (quote k) @ ?after"
    using q by (simp add: member_text_def kv)
  then show ?case
    using key val
    by (subst parse_members.simps) (simp add: skip_ws_nonws is_ws_def kv)
next
  case (cons kv kvs)
  obtain k v where kv: "kv = (k, v)" by (cases kv)
  let ?tail = "commas (map member_text kvs) @ CHR ''}'' # rest"
  let ?after = "CHR '':'' # json_text v @ CHR '','' # ?tail"
  have key: "parse_chars (tl (quote k) @ ?after) = Some (k, ?after)"
    by (rule parse_chars_quote)
  have val: "parse_value (json_text v @ CHR '','' # ?tail) = Some (v, CHR '','' # ?tail)"
    using cons.prems kv by (simp add: parses_back_def)
  have rec: "parse_members ?tail = Some (kvs, rest)"
    using cons by simp
  have sk: "skip_ws ?tail = ?tail"
    using cons.hyps skip_ws_members [of kvs] by simp
  have q: "quote k = CHR 0x22 # tl (quote k)" by (simp add: quote_def)
  have "commas (map member_text (kv # kvs)) @ CHR ''}'' # rest = CHR 0x22 # tl (quote k) @ ?after"
    using q cons.hyps by (simp add: member_text_def kv commas_Cons)
  then show ?case
    using key val rec sk
    by (subst parse_members.simps) (simp add: skip_ws_nonws is_ws_def kv)
qed

lemma update_fresh: "k \<notin> fst ` set al \<Longrightarrow> AList.update k v al = al @ [(k, v)]"
  by (induction al) auto

lemma foldl_set_property:
  "distinct (map fst (acc @ kvs)) \<Longrightarrow>
   foldl (\<lambda>obj (k, v). set_property k v obj) acc kvs = acc @ kvs"
proof (induction kvs arbitrary: acc)
  case Nil
  then show ?case by simp
next
  case (Cons kv kvs)
  obtain k v where kv: "kv = (k, v)" by (cases kv)
  have "set_property k v acc = acc @ [(k, v)]"
    using Cons.prems kv by (simp add: set_property_def update_fresh)
  moreover have "distinct (map fst ((acc @ [(k, v)]) @ kvs))"
    using Cons.prems kv by simp
  ultimately show ?case
    using Cons.IH [of "acc @ [(k, v)]"] kv by simp
qed

lemma parse_value_number:
  assumes "delim rest"
  shows "parse_value (show_int n @ rest) = Some (JNum n, rest)"
proof -
  obtain c t where ct: "show_int n = c # t" "c = CHR ''-'' \<or> is_digit c"
    using show_int_head by blast
  have "parse_number (c # t @ rest) = Some (n, rest)"
    using parse_number_show_int [OF assms, of n] ct by simp
  with ct show ?thesis by (auto simp: is_digit_def)
qed

lemma parses_back_serializable: "json_serializable v \<Longrightarrow> parses_back v"
proof (induction v)
  case JUndefined
  then show ?case by simp
next
  case JNull
  show ?case by (simp add: parses_back_def json_text_def)
next
  case (JBool b)
  show ?case by (simp add: parses_back_def json_text_def)
next
  case (JNum n)
  show ?case by (simp add: parses_back_def json_text_def parse_value_number)
next
  case (JStr s)
  show ?case
    using parse_chars_escaped [of s] by (simp add: parses_back_def json_text_def quote_def)
next
  case (JArr xs)
  then have all: "\<forall>x \<in> set xs. parses_back x" by simp
  show ?case
    unfolding parses_back_def
  proof (intro allI impI)
    fix rest
    assume "delim rest"
    show "parse_value (json_text (JArr xs) @ rest) = Some (JArr xs, rest)"
    proof (cases "xs = []")
      case True
      then show ?thesis by (simp add: json_text_JArr skip_ws_nonws is_ws_def)
    next
      case False
      obtain c t where ct: "commas (map json_text xs) @ CHR '']'' # rest = c # t" "c \<noteq> CHR '']''"
        using hd_elements [OF False] by blast
      have "skip_ws (commas (map json_text xs) @ CHR '']'' # rest) = c # t"
        using skip_ws_elements [OF False, of "CHR '']'' # rest"] by (simp only: ct)
      moreover have "parse_elements (c # t) = Some (xs, rest)"
        using parse_elements_text [OF False all, of rest] ct by simp
      ultimately show ?thesis
        using ct by (simp add: json_text_JArr)
    qed
  qed
next
  case (JObj kvs)
  then have all: "\<forall>kv \<in> set kvs. parses_back (snd kv)"
    by (auto simp: snds.simps)
  have defined: "\<forall>kv \<in> set kvs. snd kv \<noteq> JUndefined"
    using JObj.prems by auto
  have dist: "distinct (map fst kvs)" using JObj.prems by simp
  show ?case
    unfolding parses_back_def
  proof (intro allI impI)
    fix rest
    assume "delim rest"
    show "parse_value (json_text (JObj kvs) @ rest) = Some (JObj kvs, rest)"
    proof (cases "kvs = []")
      case True
      then show ?thesis by (simp add: json_text_JObj skip_ws_nonws is_ws_def)
    next
      case False
      obtain kv kvs' where kvs: "kvs = kv # kvs'" using False by (cases kvs) auto
      let ?body = "commas (map member_text kvs) @ CHR ''}'' # rest"
      have hd: "\<exists>t. ?body = CHR 0x22 # t"
        by (cases kvs') (auto simp: kvs member_text_def quote_def)
      then obtain t where t: "?body = CHR 0x22 # t" by blast
      have "skip_ws ?body = CHR 0x22 # t"
        using skip_ws_members [OF False, of "CHR ''}'' # rest"] by (simp only: t)
      moreover have "parse_members (CHR 0x22 # t) = Some (kvs, rest)"
        using parse_members_text [OF False all, of rest] t by simp
      moreover have "foldl (\<lambda>obj (k, v). set_property k v obj) [] kvs = kvs"
        using foldl_set_property [of "[]" kvs] dist by simp
      ultimately show ?thesis
        using t defined by (simp add: json_text_JObj)
    qed
  qed
qed

lemma JSON_parse_text:
  assumes "json_serializable v"
  shows "JSON_parse (json_text v) = Inr v"
proof -
  have "parse_value (json_text v @ []) = Some (v, [])"
    using parses_back_serializable [OF assms] unfolding parses_back_def
    by (simp del: append_Nil2)
  moreover have "skip_ws (json_text v) = json_text v"
    using skip_ws_json_text [of v "[]"] by simp
  ultimately show ?thesis
    by (simp add: JSON_parse_def skip_ws_def)
qed

subsection \<open>wrap and unwrap\<close>

text \<open>The cases of the repository's own tests of \<^verbatim>\<open>_wrap\<close> and \<^verbatim>\<open>_unwrap\<close>.\<close>

lemma wrap_tests:
  \<open>wrap JUndefined = JUndefined\<close>
  \<open>wrap JNull = JNull\<close>
  \<open>wrap (JObj [(''test'', JBool True)]) = JStr ''{"value":{"test":true}}''\<close>
  by (simp_all add: wrap_def JSON_stringify_def quote_def escape_char_def)

lemma unwrap_tests:
  \<open>unwrap JUndefined = JUndefined\<close>
  \<open>unwrap JNull = JNull\<close>
  \<open>unwrap (JStr ''{"value":{"test":true}}'') = JObj [(''test'', JBool True)]\<close>
  \<open>unwrap (JStr ''{"value"'') = JUndefined\<close>
  by code_simp+

text \<open>
  C1. For every JSON-serializable value \<open>v\<close>, \<^verbatim>\<open>unwrap(wrap(v))\<close> is \<open>v\<close>: the same
  booleans, numbers and strings, the same elements in the same places of every array,
  the same members of every object. (\<^verbatim>\<open>null\<close> is among these values; \<^verbatim>\<open>undefined\<close> is not
  serializable.)
\<close>

theorem unwrap_wrap:
  assumes "json_serializable v"
  shows "unwrap (wrap v) = v"
proof (cases "v = JNull")
  case True
  then show ?thesis by (simp add: wrap_def unwrap_def)
next
  case False
  from assms have defined: "v \<noteq> JUndefined" by auto
  let ?obj = "JObj [(''value'', v)]"
  have wrapped: "wrap v = JStr (json_text ?obj)"
    using False defined
    by (simp add: wrap_def JSON_stringify_def json_text_def)
  have "json_serializable ?obj" using assms by simp
  then have "JSON_parse (json_text ?obj) = Inr ?obj" by (rule JSON_parse_text)
  then show ?thesis
    by (simp add: wrapped unwrap_def read_value_def)
qed

theorem unwrap_wrap_witness:
  "unwrap (wrap (JObj [(''test'', JBool True), (''list'', JArr [JNum 12, JStr ''a'', JNull])]))
     = JObj [(''test'', JBool True), (''list'', JArr [JNum 12, JStr ''a'', JNull])]"
  using unwrap_wrap
    [of "JObj [(''test'', JBool True), (''list'', JArr [JNum 12, JStr ''a'', JNull])]"]
  by simp

section \<open>Clearing the store\<close>

lemma String_indexOf_lower: "- 1 \<le> String_indexOf s p"
  by (induction s) (auto simp: Let_def)

lemma String_indexOf_0: "String_indexOf k p = 0 \<longleftrightarrow> starts_with k p"
proof (cases k)
  case Nil
  then show ?thesis by (auto simp: starts_with_def)
next
  case (Cons c s)
  then show ?thesis
    using String_indexOf_lower [of s p] by (auto simp: starts_with_def Let_def)
qed

lemma delete_absent: "k \<notin> fst ` set al \<Longrightarrow> AList.delete k al = al"
  by (induction al) auto

lemma delete_append: "AList.delete k (xs @ ys) = AList.delete k xs @ AList.delete k ys"
  by (induction xs) auto

lemma clear_loop_filter:
  "distinct (map fst (pre @ post)) \<Longrightarrow>
   clear_loop p (length pre) (ls\<lparr>items := pre @ post\<rparr>)
     = (None, ls\<lparr>items := filter (\<lambda>kv. \<not> starts_with (fst kv) p) pre @ post\<rparr>)"
proof (induction pre arbitrary: post rule: rev_induct)
  case Nil
  then show ?case by simp
next
  case (snoc x pre)
  have key: "Storage_key (ls\<lparr>items := (pre @ [x]) @ post\<rparr>) (length pre) = Some (fst x)"
    by (simp add: Storage_key_def nth_append)
  show ?case
  proof (cases "starts_with (fst x) p")
    case True
    have "fst x \<notin> fst ` set pre" "fst x \<notin> fst ` set post"
      using snoc.prems by auto
    then have "AList.delete (fst x) ((pre @ [x]) @ post) = pre @ post"
      by (simp add: delete_append delete_absent)
    moreover have "distinct (map fst (pre @ post))"
      using snoc.prems by simp
    ultimately show ?thesis
      using True key snoc.IH [of post]
      by (simp add: String_indexOf_0 Storage_removeItem_def)
  next
    case False
    have "distinct (map fst (pre @ x # post))"
      using snoc.prems by simp
    then show ?thesis
      using False key snoc.IH [of "x # post"]
      by (simp add: String_indexOf_0)
  qed
qed

lemma clear_loop_all:
  assumes "distinct (map fst (items ls))"
  shows "clear_loop p (Storage_length ls) ls
           = (None, ls\<lparr>items := filter (\<lambda>kv. \<not> starts_with (fst kv) p) (items ls)\<rparr>)"
  using clear_loop_filter [of "items ls" "[]" p ls] assms
  by (simp add: Storage_length_def)

lemma map_of_filter_key:
  "map_of (filter (\<lambda>kv. P (fst kv)) al) k = (if P k then map_of al k else None)"
  by (induction al) auto

text \<open>
  C4. With a string prefix \<open>p\<close>, \<^verbatim>\<open>clear()\<close> of the preferences element (either form)
  completes and leaves the store with exactly the entries whose key does not begin with
  \<open>p\<close>, in their order and with their values: every key that begins with the bare prefix
  is gone, every other key reads as before.
\<close>

theorem prefs_clear_frame:
  assumes "dataPrefix el = JStr p" and "distinct (map fst (items (localStorage b)))"
  shows "prefs_clear el b =
           (Resolved JUndefined,
            b\<lparr>localStorage := (localStorage b)
                 \<lparr>items := filter (\<lambda>kv. \<not> starts_with (fst kv) p) (items (localStorage b))\<rparr>\<rparr>)
         \<and> legacy_prefs_clear el b =
           (None,
            b\<lparr>localStorage := (localStorage b)
                 \<lparr>items := filter (\<lambda>kv. \<not> starts_with (fst kv) p) (items (localStorage b))\<rparr>\<rparr>)
         \<and> (\<forall>k. Storage_getItem (localStorage (snd (prefs_clear el b))) k
                = (if starts_with k p then JNull else Storage_getItem (localStorage b) k))"
  using assms
  by (simp add: prefs_clear_def legacy_prefs_clear_def clear_loop_all Storage_getItem_def
      map_of_filter_key [of "\<lambda>k. \<not> starts_with k p"])

theorem prefs_clear_frame_witness:
  \<open>prefs_clear \<lparr>dataPrefix = JStr ''_arc_''\<rparr>
     (sample_browser [(''_arc_.a'', ''{"value":1}''), (''_other_.b'', ''{"value":2}''),
                      (''_arc_c'', ''3'')])
     = (Resolved JUndefined, sample_browser [(''_other_.b'', ''{"value":2}'')])
   \<and> legacy_prefs_clear \<lparr>dataPrefix = JStr ''_arc_''\<rparr>
     (sample_browser [(''_arc_.a'', ''{"value":1}''), (''_other_.b'', ''{"value":2}''),
                      (''_arc_c'', ''3'')])
     = (None, sample_browser [(''_other_.b'', ''{"value":2}'')])\<close>
  using prefs_clear_frame
    [of "\<lparr>dataPrefix = JStr ''_arc_''\<rparr>" "''_arc_''"
      \<open>sample_browser [(''_arc_.a'', ''{"value":1}''), (''_other_.b'', ''{"value":2}''),
                       (''_arc_c'', ''3'')]\<close>]
  by (simp add: sample_browser_def sample_storage_def starts_with_def)

text \<open>With no prefix set, \<^verbatim>\<open>clear()\<close> of the preferences element empties the store.\<close>

lemma prefs_clear_unset:
  assumes "\<not> truthy (dataPrefix el)" and "distinct (map fst (items (localStorage b)))"
  shows "prefs_clear el b = (Resolved JUndefined, b\<lparr>localStorage := (localStorage b)\<lparr>items := []\<rparr>\<rparr>)"
  using assms
  by (simp add: prefs_clear_def clear_loop_all js_or_def starts_with_def)

text \<open>
  \<^verbatim>\<open>clear()\<close> of the workspace element removes the keys that begin with the text of
  \<^verbatim>\<open>this.dataPrefix\<close>, whatever that is.
\<close>

lemma ws_clear_frame:
  assumes "distinct (map fst (items (localStorage b)))"
  shows "ws_clear el b =
           (None,
            b\<lparr>localStorage := (localStorage b)
                 \<lparr>items := filter (\<lambda>kv. \<not> starts_with (fst kv) (ToString (dataPrefix el)))
                             (items (localStorage b))\<rparr>\<rparr>)"
  using assms by (simp add: ws_clear_def clear_loop_all)

text \<open>
  C5. For a workspace element whose prefix \<^verbatim>\<open>dataPrefix\<close> is the string \<open>p\<close> (the
  constructor sets \<^verbatim>\<open>_arcworkspace\<close>), \<^verbatim>\<open>clear()\<close> completes and leaves the store with exactly
  the entries whose key does not begin with \<open>p\<close>, in their order and with their values:
  every key that begins with the element's prefix is gone, every other key reads as
  before.
\<close>

theorem ws_clear_string_prefix:
  assumes "dataPrefix el = JStr p" and "distinct (map fst (items (localStorage b)))"
  shows "ws_clear el b =
           (None,
            b\<lparr>localStorage := (localStorage b)
                 \<lparr>items := filter (\<lambda>kv. \<not> starts_with (fst kv) p) (items (localStorage b))\<rparr>\<rparr>)
         \<and> (\<forall>k. Storage_getItem (localStorage (snd (ws_clear el b))) k
                = (if starts_with k p then JNull else Storage_getItem (localStorage b) k))"
  using assms
  by (simp add: ws_clear_frame Storage_getItem_def
      map_of_filter_key [of "\<lambda>k. \<not> starts_with k p"])

theorem ws_clear_string_prefix_witness:
  \<open>ws_clear (sample_workspace (JStr ''_arcworkspace''))
     (sample_browser [(''_arcworkspace.a'', ''{"value":1}''), (''_arc_.b'', ''{"value":2}''),
                      (''_arcworkspaces'', ''3''), (''other'', ''4'')])
     = (None, sample_browser [(''_arc_.b'', ''{"value":2}''), (''other'', ''4'')])\<close>
  using ws_clear_string_prefix
    [of "sample_workspace (JStr ''_arcworkspace'')" "''_arcworkspace''"
      \<open>sample_browser [(''_arcworkspace.a'', ''{"value":1}''), (''_arc_.b'', ''{"value":2}''),
                       (''_arcworkspaces'', ''3''), (''other'', ''4'')]\<close>]
  by (simp add: sample_workspace_def sample_browser_def sample_storage_def starts_with_def)

section \<open>The debounced store of the workspace\<close>

lemma store_field_storage:
  assumes "dataPrefix el = dataPrefix el'" and "localStorage b = localStorage b'"
  shows "localStorage (store_field el w b k) = localStorage (store_field el' w b' k)"
  using assms by (simp add: store_field_def Let_def split: sum.splits)

lemma foldl_store_field_storage:
  assumes "dataPrefix el = dataPrefix el'" and "localStorage b = localStorage b'"
  shows "localStorage (foldl (store_field el w) b ks) = localStorage (foldl (store_field el' w) b' ks)"
  using assms(2)
proof (induction ks arbitrary: b b')
  case Nil
  then show ?case by simp
next
  case (Cons k ks)
  have "localStorage (store_field el w b k) = localStorage (store_field el' w b' k)"
    using assms(1) Cons.prems by (rule store_field_storage)
  then show ?case using Cons.IH by simp
qed

lemma ws_store_now_storage:
  assumes "dataPrefix el = dataPrefix el'" and "localStorage b = localStorage b'"
  shows "localStorage (ws_store_now el w b) = localStorage (ws_store_now el' w b')"
proof (cases "truthy w")
  case True
  then show ?thesis
    using foldl_store_field_storage [OF assms, of w "Object_keys w"]
    by (simp add: ws_store_now_def)
next
  case False
  then show ?thesis
    using assms(2) by (simp add: ws_store_now_def)
qed

lemma store_field_frame:
  "timers (store_field el w b k) = timers b \<and> clock (store_field el w b k) = clock b
   \<and> last_handle (store_field el w b k) = last_handle b
   \<and> dispatched (store_field el w b k) = dispatched b"
  by (simp add: store_field_def Let_def split: sum.splits)

lemma ws_store_now_frame:
  "timers (ws_store_now el w b) = timers b \<and> clock (ws_store_now el w b) = clock b
   \<and> last_handle (ws_store_now el w b) = last_handle b
   \<and> dispatched (ws_store_now el w b) = dispatched b"
proof -
  have "timers (foldl (store_field el w) b ks) = timers b
        \<and> clock (foldl (store_field el w) b ks) = clock b
        \<and> last_handle (foldl (store_field el w) b ks) = last_handle b
        \<and> dispatched (foldl (store_field el w) b ks) = dispatched b" for ks
    by (induction ks arbitrary: b) (simp_all add: store_field_frame)
  then show ?thesis by (simp add: ws_store_now_def)
qed

text \<open>After \<^verbatim>\<open>store(v)\<close> exactly one timeout is pending, due 500 ms later, and nothing is written.\<close>

lemma ws_store_armed:
  assumes "ws_consistent el b"
  shows "ws_store el v b =
           (el\<lparr>pendingWorkspace := v, workspaceWriteDebounce := Some (Suc (last_handle b))\<rparr>,
            b\<lparr>timers := [(Suc (last_handle b), clock b + 500)],
              last_handle := Suc (last_handle b)\<rparr>)"
proof (cases "workspaceWriteDebounce el")
  case None
  with assms show ?thesis
    by (simp add: ws_store_def ws_consistent_def setTimeout_def Let_def)
next
  case (Some h)
  with assms have h: "h \<noteq> 0" "map fst (timers b) = [h]"
    by (simp_all add: ws_consistent_def)
  then obtain t where "timers b = [(h, t)]"
    by (cases "timers b") auto
  with Some h show ?thesis
    by (simp add: ws_store_def setTimeout_def clearTimeout_def Let_def)
qed

lemma advance_early:
  assumes "timers b = [(h, due)]" and "clock b + dt < due"
  shows "advance dt (el, b) = (el, b\<lparr>clock := clock b + dt\<rparr>)"
  using assms by (simp add: advance_def Let_def)

lemma advance_due:
  assumes "timers b = [(h, due)]" and "due \<le> clock b + dt"
  shows "advance dt (el, b) = ws_flush (el, b\<lparr>timers := [], clock := clock b + dt\<rparr>)"
  using assms by (simp add: advance_def Let_def)

text \<open>
  C2. On a workspace element whose debouncer agrees with the timeout queue, let
  \<^verbatim>\<open>store(v1)\<close> be called, then \<^verbatim>\<open>store(v2)\<close> \<open>d < 500\<close> ms later. The store is as it was after
  the first call, during the \<open>d\<close> ms, after the second call and for the next 499 ms; once
  500 ms or more have passed since the second call it is what \<^verbatim>\<open>_store(v2)\<close> makes of the
  store as it was. So the fields of \<open>v1\<close> are never written. Nothing is then pending: no
  value, no handle, no timeout.
\<close>

theorem ws_store_debounce:
  assumes "ws_consistent el b" and "d < 500" and "500 \<le> e"
  shows "let w1 = ws_store el v1 b;
             w2 = advance d w1;
             w3 = ws_store (fst w2) v2 (snd w2);
             w4 = advance e w3
         in localStorage (snd w1) = localStorage b
            \<and> localStorage (snd w2) = localStorage b
            \<and> localStorage (snd w3) = localStorage b
            \<and> (\<forall>e' < 500. localStorage (snd (advance e' w3)) = localStorage b)
            \<and> localStorage (snd w4) = localStorage (ws_store_now el v2 b)
            \<and> pendingWorkspace (fst w4) = JUndefined
            \<and> workspaceWriteDebounce (fst w4) = None
            \<and> timers (snd w4) = []"
proof -
  define h1 where "h1 = Suc (last_handle b)"
  define el1 where "el1 = el\<lparr>pendingWorkspace := v1, workspaceWriteDebounce := Some h1\<rparr>"
  define b1 where "b1 = b\<lparr>timers := [(h1, clock b + 500)], last_handle := h1\<rparr>"
  define b2 where "b2 = b1\<lparr>clock := clock b + d\<rparr>"
  define h2 where "h2 = Suc h1"
  define el3 where "el3 = el1\<lparr>pendingWorkspace := v2, workspaceWriteDebounce := Some h2\<rparr>"
  define b3 where "b3 = b2\<lparr>timers := [(h2, clock b + d + 500)], last_handle := h2\<rparr>"
  have w1: "ws_store el v1 b = (el1, b1)"
    using ws_store_armed [OF assms(1), of v1] by (simp add: el1_def b1_def h1_def)
  have w2: "advance d (el1, b1) = (el1, b2)"
    using advance_early [of b1 h1 "clock b + 500" d el1] assms(2)
    by (simp add: b1_def b2_def)
  have "ws_consistent el1 b2"
    by (simp add: ws_consistent_def el1_def b2_def b1_def h1_def)
  then have w3: "ws_store el1 v2 b2 = (el3, b3)"
    using ws_store_armed [of el1 b2 v2]
    by (simp add: el3_def b3_def h2_def b2_def b1_def)
  have early: "advance e' (el3, b3) = (el3, b3\<lparr>clock := clock b3 + e'\<rparr>)" if "e' < 500" for e'
    using advance_early [of b3 h2 "clock b + d + 500" e' el3] that
    by (simp add: b3_def b2_def b1_def)
  have "advance e (el3, b3) = ws_flush (el3, b3\<lparr>timers := [], clock := clock b3 + e\<rparr>)"
    using advance_due [of b3 h2 "clock b + d + 500" e el3] assms(3)
    by (simp add: b3_def b2_def b1_def)
  then have w4: "advance e (el3, b3) =
      (el3\<lparr>workspaceWriteDebounce := None, pendingWorkspace := JUndefined\<rparr>,
       ws_store_now (el3\<lparr>workspaceWriteDebounce := None\<rparr>) v2
         (b3\<lparr>timers := [], clock := clock b3 + e\<rparr>))"
    by (simp add: ws_flush_def Let_def el3_def)
  have written: "localStorage (ws_store_now (el3\<lparr>workspaceWriteDebounce := None\<rparr>) v2
                   (b3\<lparr>timers := [], clock := clock b3 + e\<rparr>))
                 = localStorage (ws_store_now el v2 b)"
    by (rule ws_store_now_storage) (simp_all add: el3_def el1_def b3_def b2_def b1_def)
  have quiet: "timers (ws_store_now (el3\<lparr>workspaceWriteDebounce := None\<rparr>) v2
                 (b3\<lparr>timers := [], clock := clock b3 + e\<rparr>)) = []"
    by (simp add: ws_store_now_frame)
  have same: "localStorage b1 = localStorage b" "localStorage b2 = localStorage b"
    "localStorage b3 = localStorage b"
    by (simp_all add: b1_def b2_def b3_def)
  show ?thesis
    by (simp add: Let_def w1 w2 w3 w4 early written quiet same)
qed

theorem ws_store_debounce_witness:
  \<open>items (localStorage (snd
      (advance 500
        (ws_store
          (fst (advance 100
                 (ws_store (sample_workspace (JStr ''_arcworkspace'')) (JObj [(''a'', JNum 1)])
                    (sample_browser []))))
          (JObj [(''b'', JNum 2)])
          (snd (advance 100
                 (ws_store (sample_workspace (JStr ''_arcworkspace'')) (JObj [(''a'', JNum 1)])
                    (sample_browser []))))))))
     = [(''_arcworkspace.b'', ''{"value":2}'')]\<close>
proof -
  have ok: "ws_consistent (sample_workspace (JStr ''_arcworkspace'')) (sample_browser [])"
    by (simp add: ws_consistent_def sample_workspace_def sample_browser_def)
  have now: \<open>items (localStorage (ws_store_now (sample_workspace (JStr ''_arcworkspace''))
                 (JObj [(''b'', JNum 2)]) (sample_browser [])))
             = [(''_arcworkspace.b'', ''{"value":2}'')]\<close>
    by (simp add: ws_store_now_def Object_keys_def store_field_def get_property_def
        Storage_setItem_def sample_workspace_def sample_browser_def sample_storage_def
        js_or_def wrap_text json_text_def show_int_def digits.simps digit_char_def)
  show ?thesis
    using ws_store_debounce
      [OF ok, of 100 500 "JObj [(''a'', JNum 1)]" "JObj [(''b'', JNum 2)]"]
    by (simp add: Let_def now)
qed

section \<open>A write request without a value\<close>

text \<open>
  C3, as the code is. \<^verbatim>\<open>store(value)\<close> makes no test of its argument and has no result:
  called with \<^verbatim>\<open>undefined\<close> while \<^verbatim>\<open>{a: 1}\<close> is pending, it replaces the pending workspace by
  \<^verbatim>\<open>undefined\<close> and sets a new timeout.
\<close>

theorem ws_store_falsy_schedules:
  "ws_store
     (fst (ws_store (sample_workspace (JStr ''_arcworkspace'')) (JObj [(''a'', JNum 1)])
             (sample_browser [])))
     JUndefined
     (snd (ws_store (sample_workspace (JStr ''_arcworkspace'')) (JObj [(''a'', JNum 1)])
             (sample_browser [])))
   = (\<lparr>dataPrefix = JStr ''_arcworkspace'', pendingWorkspace = JUndefined,
       workspaceWriteDebounce = Some 2\<rparr>,
      \<lparr>localStorage = sample_storage [], dispatched = [], timers = [(2, 500)], clock = 0,
       last_handle = 2\<rparr>)
   \<and> pendingWorkspace
       (fst (ws_store (sample_workspace (JStr ''_arcworkspace'')) (JObj [(''a'', JNum 1)])
               (sample_browser [])))
     = JObj [(''a'', JNum 1)]"
  by (simp add: ws_store_def setTimeout_def clearTimeout_def sample_workspace_def
      sample_browser_def Let_def)

text \<open>
  C3, amended. The test is in the handler of \<^verbatim>\<open>workspace-state-store\<close>: for a cancelable
  event, not yet prevented, whose \<^verbatim>\<open>detail.value\<close> is falsy, the handler prevents the
  default, stops the propagation and sets a result rejected with the error
  \<^verbatim>\<open>Value is not set.\<close>; it does not call \<^verbatim>\<open>store\<close>, so the element (its pending workspace,
  its debouncer) and the browser (its timeouts, its store) are as they were.
\<close>

theorem ws_changeHandler_value_required:
  assumes "cancelable e" and "\<not> defaultPrevented e" and "\<not> truthy (detail_value e)"
  shows "ws_changeHandler el e b =
           (e\<lparr>defaultPrevented := True, propagationStopped := True,
              detail_result := Some (Rejected (Error ''Value is not set.''))\<rparr>, el, b)"
  using assms
  by (simp add: ws_changeHandler_def preventDefault_def stopPropagation_def Let_def)

theorem ws_changeHandler_value_required_witness:
  "ws_changeHandler (sample_workspace (JStr ''_arcworkspace''))
     (sample_event True False JUndefined (JStr [])) (sample_browser [])
   = (\<lparr>event_type = ''request'', cancelable = True, defaultPrevented = True,
       propagationStopped = True, detail_name = JUndefined, detail_value = JStr [],
       detail_settings = JUndefined,
       detail_result = Some (Rejected (Error ''Value is not set.''))\<rparr>,
      sample_workspace (JStr ''_arcworkspace''), sample_browser [])"
  using ws_changeHandler_value_required
    [of "sample_event True False JUndefined (JStr [])"
      "sample_workspace (JStr ''_arcworkspace'')" "sample_browser []"]
  by (simp add: sample_event_def)

section \<open>Loading the preferences\<close>

lemma Array_indexOf_lower: "- 1 \<le> Array_indexOf xs v"
  by (induction xs) (auto simp: Let_def)

lemma Array_indexOf_absent: "Array_indexOf xs v = - 1 \<longleftrightarrow> v \<notin> set xs"
proof (induction xs)
  case Nil
  show ?case by simp
next
  case (Cons x xs)
  then show ?case
    using Array_indexOf_lower [of xs v] by (auto simp: Let_def)
qed

lemma out_of_scope_list:
  assumes "\<not> truthy scope \<or> scope = JArr xs"
  shows "out_of_scope scope k = Inr (\<not> in_scope scope k)"
  using assms
  by (cases scope) (auto simp: out_of_scope_def in_scope_def Array_indexOf_absent)

lemma load_loop_foldl:
  assumes "\<not> truthy scope \<or> scope = JArr xs"
  shows "i \<le> length (items ls) \<Longrightarrow>
         load_loop p scope ls i (length (items ls)) result
           = Inr (foldl (load_step p scope ls) result (drop i (map fst (items ls))))"
proof (induction "length (items ls) - i" arbitrary: i result)
  case 0
  then show ?case by (subst load_loop.simps) simp
next
  case (Suc n)
  then have less: "i < length (items ls)" by simp
  let ?key = "fst (items ls ! i)"
  have key: "Storage_key ls i = Some ?key"
    using less by (simp add: Storage_key_def)
  have rest: "drop i (map fst (items ls)) = ?key # drop (Suc i) (map fst (items ls))"
    using less by (simp add: Cons_nth_drop_Suc [symmetric])
  have next_round: "load_loop p scope ls (Suc i) (length (items ls)) r
      = Inr (foldl (load_step p scope ls) r (drop (Suc i) (map fst (items ls))))" for r
    using Suc.hyps(1) [of "Suc i" r] Suc.hyps(2) less by simp
  show ?case
    using less key
    by (subst load_loop.simps)
      (simp add: rest next_round String_indexOf_0 starts_with_def load_step_def
        out_of_scope_list [OF assms] Let_def)
qed

lemma map_of_load_step:
  "map_of (load_step p scope ls result key) k =
     (if p @ k = key \<and> in_scope scope k \<and> k \<noteq> ''__proto__''
      then Some (unwrap (Storage_getItem ls key))
      else map_of result k)"
proof (cases "take (length p) key = p")
  case True
  then have "key = p @ drop (length p) key"
    by (metis append_take_drop_id)
  then have "p @ k = key \<longleftrightarrow> k = drop (length p) key"
    by (metis same_append_eq)
  with True show ?thesis
    by (auto simp: load_step_def assign_property_def set_property_def update_conv')
next
  case False
  then have "p @ k \<noteq> key" by auto
  with False show ?thesis by (simp add: load_step_def)
qed

lemma map_of_foldl_load_step:
  "map_of (foldl (load_step p scope ls) result ks) k =
     (if p @ k \<in> set ks \<and> in_scope scope k \<and> k \<noteq> ''__proto__''
      then Some (unwrap (Storage_getItem ls (p @ k)))
      else map_of result k)"
  by (induction ks arbitrary: result) (auto simp: map_of_load_step)

lemma distinct_foldl_load_step:
  "distinct (map fst result) \<Longrightarrow> distinct (map fst (foldl (load_step p scope ls) result ks))"
  by (induction ks arbitrary: result)
    (simp_all add: load_step_def assign_property_def set_property_def distinct_update)

text \<open>
  What \<^verbatim>\<open>load(scope)\<close> returns, in the model: with a string prefix \<open>p\<close> and a scope that is
  absent or a list, \<^verbatim>\<open>load\<close> (either form) does not fail; the keys of its result are the
  \<open>k\<close> other than \<^verbatim>\<open>__proto__\<close> such that \<open>p.k\<close> is a key of the store and, when a scope is
  given, \<open>k\<close> is in the scope; each is mapped to \<^verbatim>\<open>unwrap\<close> of what the store holds under
  \<open>p.k\<close>. \<^verbatim>\<open>__proto__\<close> is never a key of the result.
\<close>

lemma prefs_load_keys:
  assumes "dataPrefix el = JStr p" and "scope = JUndefined \<or> scope = JArr xs"
  shows "\<exists>result.
           prefs_load el scope b = Resolved (JObj result)
         \<and> legacy_prefs_load el scope b = Inr (Resolved (JObj result))
         \<and> distinct (map fst result)
         \<and> (\<forall>k. map_of result k =
                (if k \<noteq> ''__proto__''
                    \<and> p @ ''.'' @ k \<in> fst ` set (items (localStorage b))
                    \<and> (scope = JUndefined \<or> JStr k \<in> set xs)
                 then Some (unwrap (Storage_getItem (localStorage b) (p @ ''.'' @ k)))
                 else None))"
proof -
  let ?ls = "localStorage b"
  let ?result = "foldl (load_step (p @ ''.'') scope ?ls) [] (map fst (items ?ls))"
  have ok: "\<not> truthy scope \<or> scope = JArr xs"
    using assms(2) by auto
  have loop: "load_loop (p @ ''.'') scope ?ls 0 (Storage_length ?ls) [] = Inr ?result"
    using load_loop_foldl [OF ok, of 0 ?ls "p @ ''.''" "[]"] by (simp add: Storage_length_def)
  have scoped: "in_scope scope k \<longleftrightarrow> scope = JUndefined \<or> JStr k \<in> set xs" for k
    using assms(2) by (auto simp: in_scope_def)
  have "prefs_load el scope b = Resolved (JObj ?result)"
    using assms(1) loop by (simp add: prefs_load_def Let_def)
  moreover have "legacy_prefs_load el scope b = Inr (Resolved (JObj ?result))"
    using assms(1) loop by (simp add: legacy_prefs_load_def Let_def)
  moreover have "distinct (map fst ?result)"
    by (rule distinct_foldl_load_step) simp
  moreover have "map_of ?result k =
      (if k \<noteq> ''__proto__'' \<and> p @ ''.'' @ k \<in> fst ` set (items ?ls)
          \<and> (scope = JUndefined \<or> JStr k \<in> set xs)
       then Some (unwrap (Storage_getItem ?ls (p @ ''.'' @ k))) else None)" for k
    using map_of_foldl_load_step [of "p @ ''.''" scope ?ls "[]" "map fst (items ?ls)" k]
    by (auto simp: scoped)
  ultimately show ?thesis by blast
qed

text \<open>The repository's tests of \<^verbatim>\<open>load\<close>: all the data, and the data in the scope a, c.\<close>

lemma unwrap_stored:
  \<open>unwrap (JStr ''{"value":"a"}'') = JStr ''a''\<close>
  \<open>unwrap (JStr ''{"value":true}'') = JBool True\<close>
  \<open>unwrap (JStr ''{"value":12}'') = JNum 12\<close>
  \<open>unwrap (JStr ''{"value":null}'') = JNull\<close>
  by code_simp+

lemma prefs_load_tests:
  "prefs_load \<lparr>dataPrefix = JStr ''_arc_''\<rparr> JUndefined test_browser
     = Resolved (JObj [(''a'', JStr ''a''), (''b'', JBool True), (''c'', JNum 12), (''d'', JNull)])"
  "prefs_load \<lparr>dataPrefix = JStr ''_arc_''\<rparr> (JArr [JStr ''a'', JStr ''c'']) test_browser
     = Resolved (JObj [(''a'', JStr ''a''), (''c'', JNum 12)])"
  by code_simp+

text \<open>
  C8. A preference stored under the name \<^verbatim>\<open>__proto__\<close> is not loaded. From an empty store,
  \<^verbatim>\<open>store('__proto__', 12)\<close> writes the key \<^verbatim>\<open>_arc_.__proto__\<close>; from the store that also
  holds \<^verbatim>\<open>_arc_.a\<close>, \<^verbatim>\<open>load()\<close> (either form) returns the object with the one key \<open>a\<close>,
  though \<^verbatim>\<open>_arc_.__proto__\<close> is a key of the store and no scope is given.
\<close>

theorem prefs_load_drops_proto:
  \<open>items (localStorage (snd (prefs_store \<lparr>dataPrefix = JStr ''_arc_''\<rparr> (JStr ''__proto__'')
      (JNum 12) (sample_browser []))))
     = [(''_arc_.__proto__'', ''{"value":12}'')]
   \<and> prefs_load \<lparr>dataPrefix = JStr ''_arc_''\<rparr> JUndefined
       (sample_browser [(''_arc_.__proto__'', ''{"value":12}''), (''_arc_.a'', ''{"value":1}'')])
     = Resolved (JObj [(''a'', JNum 1)])
   \<and> legacy_prefs_load \<lparr>dataPrefix = JStr ''_arc_''\<rparr> JUndefined
       (sample_browser [(''_arc_.__proto__'', ''{"value":12}''), (''_arc_.a'', ''{"value":1}'')])
     = Inr (Resolved (JObj [(''a'', JNum 1)]))\<close>
  by code_simp

section \<open>The workspace element without a prefix\<close>

text \<open>
  With \<^verbatim>\<open>dataPrefix\<close> undefined, \<^verbatim>\<open>_store\<close> writes each field \<open>f\<close> of a workspace under the
  key \<open>.f\<close>, while \<^verbatim>\<open>clear()\<close> removes the keys that begin with \<^verbatim>\<open>undefined\<close>
  (\<open>ws_clear_frame\<close>), which are not those.
\<close>

lemma ws_store_now_unset:
  assumes "dataPrefix el = JUndefined"
  shows "ws_store_now el w b =
           (if \<not> truthy w then b
            else foldl (\<lambda>b' f. case Storage_setItem (localStorage b') (''.'' @ f)
                                      (ToString (wrap (get_property w f))) of
                                 Inl err \<Rightarrow> b'
                               | Inr ls \<Rightarrow> b'\<lparr>localStorage := ls\<rparr>)
                   b (Object_keys w))"
proof -
  have "store_field el w =
      (\<lambda>b' f. case Storage_setItem (localStorage b') (''.'' @ f)
                      (ToString (wrap (get_property w f))) of
                 Inl err \<Rightarrow> b'
               | Inr ls \<Rightarrow> b'\<lparr>localStorage := ls\<rparr>)"
    using assms by (intro ext) (simp add: store_field_def js_or_def)
  then show ?thesis by (simp add: ws_store_now_def)
qed

end
